theory Spec2Isabelle
  imports Main
begin

section \<open>Characters and strings of the runner\<close>

text \<open>
  The runner is Python 2: a \<open>str\<close> is a byte string, modelled as \<open>string\<close>.
  The status of a test case is the one-character string the source returns:
  \<open>S\<close> (proof found), \<open>F\<close> (no proof found), \<open>?\<close> (likely failure) and
  \<open>E\<close> (error).
\<close>

abbreviation nl :: char where
  "nl \<equiv> CHR 0x0A"

abbreviation quote :: char where
  "quote \<equiv> CHR 0x27"

text \<open>\<open>pattern.match(line)\<close> for a pattern without metacharacters: the line starts with it.\<close>

fun starts_with :: "string \<Rightarrow> string \<Rightarrow> bool" where
  "starts_with [] s = True"
| "starts_with (p # ps) [] = False"
| "starts_with (p # ps) (c # cs) = (p = c \<and> starts_with ps cs)"

text \<open>Iterating over a file yields its lines, each with its newline; the last may lack one.\<close>

fun file_lines :: "string \<Rightarrow> string list" where
  "file_lines [] = []"
| "file_lines (c # cs) =
     (if c = nl then [c] # file_lines cs
      else (case file_lines cs of [] \<Rightarrow> [c] # [] | l # ls \<Rightarrow> (c # l) # ls))"

section \<open>The markup patterns (\<open>split_tptp_input\<close>, the regular expressions)\<close>

text \<open>
  \<open>\s\<close> of a byte pattern: space, tab, newline, carriage return, form feed, vertical tab.
  \<open>str.strip()\<close> removes the same characters from both ends.
\<close>

definition is_space :: "char \<Rightarrow> bool" where
  "is_space c = (c = CHR '' '' \<or> c = CHR 0x09 \<or> c = nl \<or> c = CHR 0x0D
                 \<or> c = CHR 0x0C \<or> c = CHR 0x0B)"

definition skip_space :: "string \<Rightarrow> string" where
  "skip_space s = dropWhile is_space s"

definition strip :: "string \<Rightarrow> string" where
  "strip s = rev (dropWhile is_space (rev (dropWhile is_space s)))"

text \<open>\<open>re.IGNORECASE\<close> on a byte pattern compares the ASCII lower case of both sides.\<close>

definition lower :: "char \<Rightarrow> char" where
  "lower c =
     (case map_of (zip ''ABCDEFGHIJKLMNOPQRSTUVWXYZ'' ''abcdefghijklmnopqrstuvwxyz'') c of
        Some d \<Rightarrow> d
      | None \<Rightarrow> c)"

text \<open>A literal of the pattern, matched ignoring case at the head of \<open>s\<close>; the rest of \<open>s\<close>.\<close>

fun lit :: "string \<Rightarrow> string \<Rightarrow> string option" where
  "lit [] s = Some s"
| "lit (p # ps) [] = None"
| "lit (p # ps) (c # cs) = (if lower p = lower c then lit ps cs else None)"

text \<open>An optional literal: \<open>(?P<negated>Negated)?\<close> and \<open>:?\<close>. Whether it took part, and the rest.\<close>

definition opt_lit :: "string \<Rightarrow> string \<Rightarrow> bool \<times> string" where
  "opt_lit p s = (case lit p s of Some r \<Rightarrow> (True, r) | None \<Rightarrow> (False, s))"

text \<open>
  \<open>\s*%\s*Test\s*runner\s*:?\s*\<close>, the common head of the two section patterns, matched
  from the start of the line as \<open>match\<close> does. No choice of the pattern can be taken two
  ways on the same text, so the greedy reading is the only one.
\<close>

definition test_runner_head :: "string \<Rightarrow> string option" where
  "test_runner_head line =
     (case lit ''%'' (skip_space line) of None \<Rightarrow> None
      | Some r1 \<Rightarrow>
     (case lit ''Test'' (skip_space r1) of None \<Rightarrow> None
      | Some r2 \<Rightarrow>
     (case lit ''runner'' (skip_space r2) of None \<Rightarrow> None
      | Some r3 \<Rightarrow> Some (skip_space (snd (opt_lit '':'' (skip_space r3)))))))"

definition begin_test_section :: "string \<Rightarrow> bool" where
  "begin_test_section line =
     (case test_runner_head line of None \<Rightarrow> False | Some r \<Rightarrow> lit ''begin'' r \<noteq> None)"

definition end_test_section :: "string \<Rightarrow> bool" where
  "end_test_section line =
     (case test_runner_head line of None \<Rightarrow> False | Some r \<Rightarrow> lit ''end'' r \<noteq> None)"

text \<open>
  \<open>\s*%\s*(?P<negated>Negated)?\s*[tT]est\s*case\s*:?\s*(?P<name>.*)\s*$\<close>: the result is
  whether the group \<open>negated\<close> took part, and the group \<open>name\<close>. \<open>.*\<close> stops at a
  newline and what follows the name must be white space up to the end of the line.
\<close>

definition test_case :: "string \<Rightarrow> (bool \<times> string) option" where
  "test_case line =
     (case lit ''%'' (skip_space line) of None \<Rightarrow> None
      | Some r1 \<Rightarrow>
     (let (negated, r2) = opt_lit ''Negated'' (skip_space r1) in
      case lit ''test'' (skip_space r2) of None \<Rightarrow> None
      | Some r3 \<Rightarrow>
     (case lit ''case'' (skip_space r3) of None \<Rightarrow> None
      | Some r4 \<Rightarrow>
     (let r5 = skip_space (snd (opt_lit '':'' (skip_space r4)));
          name = takeWhile (\<lambda>c. c \<noteq> nl) r5
      in if list_all is_space (dropWhile (\<lambda>c. c \<noteq> nl) r5)
         then Some (negated, name) else None))))"

text \<open>\<open>"%s" % n\<close> for a count: its decimal digits.\<close>

fun string_of_nat :: "nat \<Rightarrow> string" where
  "string_of_nat n =
     (if n < 10 then [''0123456789'' ! n]
      else string_of_nat (n div 10) @ [''0123456789'' ! (n mod 10)])"

declare string_of_nat.simps [simp del]

section \<open>Errors\<close>

text \<open>
  Every abnormal end of the program is a value: the calls of \<open>sys.exit(1)\<close>, each with
  what its message names, and the exceptions nothing catches.
\<close>

datatype error =
    CouldntOpenFile string
  | DuplicateTestName string nat
  | TestNotInInputFile string
  | TestNotAvailable string
  | ResultsPathNotDirectory string
  | CouldntCreateResultsPath string string
  | ProverError string string
  | KeyError string
  | IOError string
  | NameError string

section \<open>Splitting the input (\<open>split_tptp_input\<close>)\<close>

text \<open>A file system maps a path to a regular file with its content or to a directory.\<close>

datatype node = File string | Dir

text \<open>An entry of the dictionary \<open>test_cases\<close>: the keys index, line, negated and text.\<close>

record test_case_entry =
  tc_index :: nat
  tc_line :: nat
  tc_negated :: bool
  tc_text :: string

text \<open>
  The local variables of the loop over the lines. \<open>current_test_name\<close> is unbound in the
  source until the first test case; it is read only when \<open>in_test\<close> holds, which a test
  case sets together with the name. \<open>split_out\<close> is what has been written to standard output.
\<close>

record split_state =
  in_test :: bool
  in_non_test_matter :: bool
  current_test_count :: nat
  line_count :: nat
  non_test_matter :: string
  test_case_names :: "string list"
  test_cases :: "string \<rightharpoonup> test_case_entry"
  current_test_name :: string
  split_out :: "string list"

definition initial_state :: split_state where
  "initial_state =
     \<lparr>in_test = False, in_non_test_matter = True, current_test_count = 0, line_count = 0,
      non_test_matter = [], test_case_names = [], test_cases = Map.empty,
      current_test_name = [], split_out = []\<rparr>"

text \<open>
  "Get the name, if any, or use a safe default": the name of the test case number
  \<open>count\<close> whose markup line has the group \<open>name\<close> equal to \<open>trial_test_name\<close>.
\<close>

definition test_name :: "nat \<Rightarrow> string \<Rightarrow> string" where
  "test_name count trial_test_name =
     (if length (strip trial_test_name) > 0 then strip trial_test_name
      else ''Test-'' @ string_of_nat count)"

text \<open>
  The first half of the loop body, "check for markup in the current line", after the line
  count has been incremented. The result is the flag \<open>disposable_line\<close> and the new state.
\<close>

definition markup :: "nat \<Rightarrow> split_state \<Rightarrow> string \<Rightarrow> error + (bool \<times> split_state)" where
  "markup verbosity st line =
     (case test_case line of
        Some (negated_group, trial_test_name) \<Rightarrow>
          (let count = current_test_count st + 1;
               name = test_name count trial_test_name;
               st1 = st\<lparr>current_test_count := count, current_test_name := name,
                        test_case_names := test_case_names st @ [name],
                        split_out := split_out st @
                          (if verbosity > 1
                           then [''Found test case #'' @ string_of_nat count @ '' at line '' @
                                 string_of_nat (line_count st) @ '' named '' @ [quote] @ name @
                                 [quote] @ ''.'' @ [nl]]
                           else [])\<rparr>
           in if test_cases st1 name \<noteq> None
              then Inl (DuplicateTestName name (line_count st1))
              else Inr (False,
                        st1\<lparr>test_cases := (test_cases st1)(name \<mapsto>
                               \<lparr>tc_index = count, tc_line = line_count st1,
                                tc_negated = negated_group, tc_text = []\<rparr>),
                            in_test := True, in_non_test_matter := False\<rparr>))
      | None \<Rightarrow>
          if begin_test_section line then
            Inr (True,
                 st\<lparr>in_non_test_matter := False,
                    split_out := split_out st @
                      (if verbosity > 1
                       then [''Found beginning of test section at line '' @
                             string_of_nat (line_count st) @ ''.'' @ [nl]]
                       else [])\<rparr>)
          else if end_test_section line then
            Inr (True,
                 st\<lparr>in_non_test_matter := True, in_test := False,
                    split_out := split_out st @
                      (if verbosity > 1
                       then [''Found end of test section at line '' @
                             string_of_nat (line_count st) @ ''.'' @ [nl]]
                       else [])\<rparr>)
          else Inr (False, st))"

text \<open>The second half, "dispatch the text of this line depending on what flags are set".\<close>

definition dispatch :: "bool \<Rightarrow> split_state \<Rightarrow> string \<Rightarrow> error + split_state" where
  "dispatch disposable_line st line =
     (if \<not> disposable_line then
        (if in_test st then
           (case test_cases st (current_test_name st) of
              None \<Rightarrow> Inl (KeyError (current_test_name st))
            | Some tc \<Rightarrow>
                Inr (st\<lparr>test_cases := (test_cases st)(current_test_name st \<mapsto>
                                          tc\<lparr>tc_text := tc_text tc @ line\<rparr>)\<rparr>))
         else if in_non_test_matter st then
           Inr (st\<lparr>non_test_matter := non_test_matter st @ line\<rparr>)
         else Inr st)
      else Inr st)"

definition read_line :: "nat \<Rightarrow> split_state \<Rightarrow> string \<Rightarrow> error + split_state" where
  "read_line verbosity st line =
     (case markup verbosity (st\<lparr>line_count := line_count st + 1\<rparr>) line of
        Inl e \<Rightarrow> Inl e
      | Inr (disposable_line, st') \<Rightarrow> dispatch disposable_line st' line)"

fun read_lines :: "nat \<Rightarrow> split_state \<Rightarrow> string list \<Rightarrow> error + split_state" where
  "read_lines verbosity st [] = Inr st"
| "read_lines verbosity st (line # rest) =
     (case read_line verbosity st line of
        Inl e \<Rightarrow> Inl e
      | Inr st' \<Rightarrow> read_lines verbosity st' rest)"

text \<open>
  The function: what it wrote, the non-test matter, the names in the order found, and the
  dictionary. A path that is no regular file cannot be opened.
\<close>

definition split_tptp_input ::
  "(string \<rightharpoonup> node) \<Rightarrow> string \<Rightarrow> bool \<Rightarrow> nat \<Rightarrow>
   error + (string list \<times> string \<times> string list \<times> (string \<rightharpoonup> test_case_entry))" where
  "split_tptp_input files input_filename dry_run verbosity =
     (case files input_filename of
        Some (File content) \<Rightarrow>
          (case read_lines verbosity initial_state (file_lines content) of
             Inl e \<Rightarrow> Inl e
           | Inr st \<Rightarrow> Inr (split_out st, non_test_matter st, test_case_names st, test_cases st))
      | _ \<Rightarrow> Inl (CouldntOpenFile input_filename))"

section \<open>The world outside the program\<close>

text \<open>
  The program's effects: the file system, what has been written to standard output (one
  element for each call of \<open>sys.stdout.write\<close>), and the inputs handed to the prover, one
  for each call of \<open>subprocess.call\<close>, in the order of the calls.
\<close>

record world =
  fs :: "string \<rightharpoonup> node"
  stdout :: "string list"
  prover_inputs :: "string list"

text \<open>
  What the program cannot decide itself. \<open>eprover k input\<close> is what the \<open>k\<close>-th run of the
  prover (counting from 0) writes to its two output channels on that input, or \<open>None\<close> when
  \<open>subprocess.call\<close> raises. \<open>makedirs path\<close> is \<open>None\<close> when the directory can be
  created, or the text of the exception. \<open>can_write path\<close> says whether the path may be
  opened for writing when it is not a directory.
\<close>

record environment =
  eprover :: "nat \<Rightarrow> string \<Rightarrow> string option"
  makedirs :: "string \<Rightarrow> string option"
  can_write :: "string \<Rightarrow> bool"

definition write_stdout :: "string \<Rightarrow> world \<Rightarrow> world" where
  "write_stdout s w = w\<lparr>stdout := stdout w @ [s]\<rparr>"

text \<open>\<open>string.join(words, sep)\<close>\<close>

fun join :: "string list \<Rightarrow> string \<Rightarrow> string" where
  "join [] sep = []"
| "join [x] sep = x"
| "join (x # y # ys) sep = x @ sep @ join (y # ys) sep"

section \<open>Classifying the prover's output (\<open>run_test_case\<close>, the scan)\<close>

text \<open>The body of the loop over the lines of the results file.\<close>

definition scan_line :: "char \<Rightarrow> string \<Rightarrow> char" where
  "scan_line result line =
     (if starts_with ''# Proof found'' line then CHR ''S''
      else if starts_with ''# No proof found'' line then CHR ''F''
      else if starts_with ''# Failure:'' line then CHR ''?''
      else result)"

definition scan_results :: "string list \<Rightarrow> char" where
  "scan_results ls = foldl scan_line (CHR ''E'') ls"

section \<open>Running one test case (\<open>run_test_case\<close>)\<close>

text \<open>
  The argument \<open>test_case'\<close> is an entry of the dictionary, or \<open>None\<close> for the empty
  dictionary that \<open>test_cases.get(test_case_name, {})\<close> gives for an unknown name. No entry
  has a key \<open>name\<close>, so \<open>test_case.get('name', 'Unknown Test')\<close> is the default. A results
  file with an empty name is a temporary file outside the file system; the scan then
  opens the empty path, which fails.
\<close>

definition run_test_case ::
  "environment \<Rightarrow> test_case_entry option \<Rightarrow> string \<Rightarrow> string \<Rightarrow> bool \<Rightarrow> nat \<Rightarrow> world
   \<Rightarrow> (error + char) \<times> world" where
  "run_test_case env test_case' non_test_matter' result_filename dry_run verbosity w =
     (if length result_filename > 0
         \<and> (fs w result_filename = Some Dir \<or> \<not> can_write env result_filename)
      then (Inl (IOError result_filename), w)
      else
        (let w1 = (if length result_filename > 0
                   then w\<lparr>fs := (fs w)(result_filename \<mapsto> File [])\<rparr> else w);
             test_case_name = ''Unknown Test'';
             test_case_text = (case test_case' of None \<Rightarrow> [] | Some tc \<Rightarrow> tc_text tc);
             input = non_test_matter' @ test_case_text;
             w2 = w1\<lparr>prover_inputs := prover_inputs w1 @ [input]\<rparr>
         in case eprover env (length (prover_inputs w1)) input of
              None \<Rightarrow> (Inl (ProverError test_case_name test_case_text), w2)
            | Some output \<Rightarrow>
                (let w3 = (if length result_filename > 0
                           then w2\<lparr>fs := (fs w2)(result_filename \<mapsto> File output)\<rparr> else w2)
                 in case (if length result_filename > 0 then fs w3 result_filename else None) of
                      Some (File content) \<Rightarrow> (Inr (scan_results (file_lines content)), w3)
                    | _ \<Rightarrow> (Inl (IOError result_filename), w3))))"

section \<open>Negation and the status phrase (\<open>run_test_cases\<close>)\<close>

text \<open>\<open>if negated: if status == 'S': status = 'F' elif status == 'F': status = 'S'\<close>\<close>

definition invert_status :: "bool \<Rightarrow> char \<Rightarrow> char" where
  "invert_status negated status =
     (if negated then
        (if status = CHR ''S'' then CHR ''F''
         else if status = CHR ''F'' then CHR ''S''
         else status)
      else status)"

text \<open>The phrase of the detail report, from the recorded (already inverted) status.\<close>

definition status_message :: "bool \<Rightarrow> char \<Rightarrow> string" where
  "status_message negated status =
     (if negated then
        (if status = CHR ''F'' then ''unintentionally/undesirably succeeded''
         else if status = CHR ''S'' then ''failed as intended''
         else ''had ERRORS'')
      else
        (if status = CHR ''F'' then ''FAILED''
         else if status = CHR ''S'' then ''succeeded''
         else ''had ERRORS''))"

section \<open>Running the selected test cases (\<open>run_test_cases\<close>)\<close>

text \<open>
  The loop that validates the requested names: the first name that is not in the list
  \<open>available\<close>, if there is one.
\<close>

fun validate :: "string list \<Rightarrow> string list \<Rightarrow> string option" where
  "validate [] available = None"
| "validate (test_case_name # rest) available =
     (if test_case_name \<notin> set available then Some test_case_name
      else validate rest available)"

text \<open>"Create the test results path, if it doesn't exist."\<close>

definition create_results_path :: "environment \<Rightarrow> string \<Rightarrow> world \<Rightarrow> (error + unit) \<times> world" where
  "create_results_path env test_results_path w =
     (case fs w test_results_path of
        Some Dir \<Rightarrow> (Inr (), w)
      | Some (File content) \<Rightarrow> (Inl (ResultsPathNotDirectory test_results_path), w)
      | None \<Rightarrow>
          (case makedirs env test_results_path of
             Some reason \<Rightarrow> (Inl (CouldntCreateResultsPath test_results_path reason), w)
           | None \<Rightarrow> (Inr (), w\<lparr>fs := (fs w)(test_results_path \<mapsto> Dir)\<rparr>)))"

text \<open>
  The body of the loop over \<open>tests_to_run\<close>. The loop carries the list
  \<open>test_case_details_to_display\<close> and the string \<open>test_results\<close>; \<open>os.sep\<close> is a slash.
\<close>

type_synonym details = "(string \<times> char \<times> string) list"

definition run_one ::
  "environment \<Rightarrow> (string \<rightharpoonup> test_case_entry) \<Rightarrow> string \<Rightarrow> string \<Rightarrow> bool \<Rightarrow> nat \<Rightarrow> string
   \<Rightarrow> details \<times> string \<Rightarrow> world \<Rightarrow> (error + details \<times> string) \<times> world" where
  "run_one env test_cases' test_results_path non_test_matter' dry_run verbosity test_case_name
     acc w =
     (let (test_case_details_to_display, test_results) = acc;
          result_filename = test_results_path @ ''/'' @ test_case_name @ ''.txt'';
          test_case' = test_cases' test_case_name;
          negated = (case test_case' of None \<Rightarrow> False | Some tc \<Rightarrow> tc_negated tc)
      in case run_test_case env test_case' non_test_matter' result_filename dry_run verbosity w of
           (Inl e, w') \<Rightarrow> (Inl e, w')
         | (Inr result, w') \<Rightarrow>
             (let status = invert_status negated result
              in if status = CHR ''S'' then
                   (Inr (if verbosity > 1
                         then test_case_details_to_display @
                              [(test_case_name, status, result_filename)]
                         else test_case_details_to_display,
                         test_results @ ''.''),
                    write_stdout ''.'' w')
                 else
                   (Inr (test_case_details_to_display @
                         [(test_case_name, status, result_filename)],
                         test_results @ [status]),
                    write_stdout [status] w')))"

fun run_loop ::
  "environment \<Rightarrow> (string \<rightharpoonup> test_case_entry) \<Rightarrow> string \<Rightarrow> string \<Rightarrow> bool \<Rightarrow> nat \<Rightarrow> string list
   \<Rightarrow> details \<times> string \<Rightarrow> world \<Rightarrow> (error + details \<times> string) \<times> world" where
  "run_loop env test_cases' test_results_path non_test_matter' dry_run verbosity [] acc w =
     (Inr acc, w)"
| "run_loop env test_cases' test_results_path non_test_matter' dry_run verbosity
     (test_case_name # rest) acc w =
     (case run_one env test_cases' test_results_path non_test_matter' dry_run verbosity
             test_case_name acc w of
        (Inl e, w') \<Rightarrow> (Inl e, w')
      | (Inr acc', w') \<Rightarrow>
          run_loop env test_cases' test_results_path non_test_matter' dry_run verbosity rest
            acc' w')"

text \<open>
  \<open>re.compile('#.*proof found', re.IGNORECASE).match(line)\<close>: a \<open>#\<close>, any characters
  but a newline, then the words.
\<close>

fun any_then_lit :: "string \<Rightarrow> string \<Rightarrow> bool" where
  "any_then_lit p [] = (lit p [] \<noteq> None)"
| "any_then_lit p (c # cs) = (lit p (c # cs) \<noteq> None \<or> (c \<noteq> nl \<and> any_then_lit p cs))"

definition search_section :: "string \<Rightarrow> bool" where
  "search_section line =
     (case line of [] \<Rightarrow> False | c # cs \<Rightarrow> c = CHR ''#'' \<and> any_then_lit ''proof found'' cs)"

text \<open>The body of the loop that displays the details of the recorded test cases.\<close>

definition report_one ::
  "(string \<rightharpoonup> test_case_entry) \<Rightarrow> nat \<Rightarrow> string \<times> char \<times> string \<Rightarrow> world
   \<Rightarrow> (error + unit) \<times> world" where
  "report_one test_cases' verbosity detail w =
     (let (test_case_name, status, result_filename) = detail
      in case test_cases' test_case_name of
           None \<Rightarrow> (Inl (KeyError test_case_name), w)
         | Some tc \<Rightarrow>
             (case (if verbosity > 0 then
                      (case fs w result_filename of
                         Some (File content) \<Rightarrow>
                           Inr (if status = CHR ''E'' \<or> verbosity > 2 then content
                                else if status = CHR ''F'' \<or> verbosity > 1 then
                                  tc_text tc @
                                  concat (dropWhile (\<lambda>line. \<not> search_section line)
                                            (file_lines content))
                                else [])
                       | _ \<Rightarrow> Inl (IOError result_filename))
                    else Inr []) of
                Inl e \<Rightarrow> (Inl e, w)
              | Inr results \<Rightarrow>
                  (Inr (),
                   write_stdout ([nl] @ [nl])
                     ((if verbosity > 0
                       then write_stdout results o write_stdout ([nl] @ ''Details:'' @ [nl] @ [nl])
                       else id)
                      (write_stdout
                         (''Test case #'' @ string_of_nat (tc_index tc) @ '' named '' @ [quote] @
                          test_case_name @ [quote] @ '' at line '' @ string_of_nat (tc_line tc) @
                          '' '' @ status_message (tc_negated tc) status @ ''.'' @ [nl])
                         w)))))"

fun report_loop ::
  "(string \<rightharpoonup> test_case_entry) \<Rightarrow> nat \<Rightarrow> details \<Rightarrow> world \<Rightarrow> (error + unit) \<times> world" where
  "report_loop test_cases' verbosity [] w = (Inr (), w)"
| "report_loop test_cases' verbosity (detail # rest) w =
     (case report_one test_cases' verbosity detail w of
        (Inl e, w') \<Rightarrow> (Inl e, w')
      | (Inr u, w') \<Rightarrow> report_loop test_cases' verbosity rest w')"

definition run_test_cases ::
  "environment \<Rightarrow> (string \<rightharpoonup> test_case_entry) \<Rightarrow> string list \<Rightarrow> string \<Rightarrow> string \<Rightarrow> bool \<Rightarrow> nat
   \<Rightarrow> world \<Rightarrow> (error + unit) \<times> world" where
  "run_test_cases env test_cases' tests_to_run test_results_path non_test_matter' dry_run
     verbosity w =
     (case validate tests_to_run tests_to_run of
        Some test_case_name \<Rightarrow> (Inl (TestNotAvailable test_case_name), w)
      | None \<Rightarrow>
     (case create_results_path env test_results_path w of
        (Inl e, w1) \<Rightarrow> (Inl e, w1)
      | (Inr u, w1) \<Rightarrow>
     (case run_loop env test_cases' test_results_path non_test_matter' dry_run verbosity
             tests_to_run ([], []) (write_stdout (''Test results:'' @ [nl] @ [nl]) w1) of
        (Inl e, w2) \<Rightarrow> (Inl e, w2)
      | (Inr (test_case_details_to_display, test_results), w2) \<Rightarrow>
     (case report_loop test_cases' verbosity test_case_details_to_display
             (write_stdout ([nl] @ [nl]) w2) of
        (Inl e, w3) \<Rightarrow> (Inl e, w3)
      | (Inr u', w3) \<Rightarrow>
          (Inr (),
           write_stdout ([nl] @ [nl] @ ''Test run complete.'' @ [nl] @ [nl])
             (if length test_case_details_to_display > 0
              then write_stdout test_results (write_stdout (''Test results:'' @ [nl] @ [nl]) w3)
              else w3))))))"

section \<open>Running the suite (\<open>run_test_suite\<close>)\<close>

text \<open>
  The message of the last branch names \<open>inputfile_name\<close>, which is bound nowhere: the
  branch raises \<open>NameError\<close> before it writes anything. The results path is the default
  of \<open>run_test_cases\<close>, \<open>os.curdir + os.sep + "results"\<close>.
\<close>

definition run_test_suite ::
  "environment \<Rightarrow> string \<Rightarrow> string list \<Rightarrow> bool \<Rightarrow> nat \<Rightarrow> world \<Rightarrow> (error + unit) \<times> world" where
  "run_test_suite env input_filename tests_to_run dry_run verbosity w =
     (let w0 = (if verbosity > 1
                then write_stdout (''Splitting '' @ input_filename @ ''...'' @ [nl]) w else w)
      in case split_tptp_input (fs w0) input_filename dry_run verbosity of
           Inl e \<Rightarrow> (Inl e, w0)
         | Inr (out, non_test_matter', test_case_names', test_cases') \<Rightarrow>
        (let w1 = w0\<lparr>stdout := stdout w0 @ out\<rparr>
         in case validate tests_to_run test_case_names' of
              Some test_case_name \<Rightarrow> (Inl (TestNotInInputFile test_case_name), w1)
            | None \<Rightarrow>
           (let tests_to_run' = (if tests_to_run = [] then test_case_names' else tests_to_run)
            in if length tests_to_run' > 0 then
                 run_test_cases env test_cases' tests_to_run' ''./results'' non_test_matter'
                   dry_run verbosity
                   (if verbosity > 0
                    then write_stdout
                           (''Running the following test cases in '' @ input_filename @ '':'' @
                            [nl] @ '' - '' @ join tests_to_run' ([nl] @ '' - '') @ [nl] @ [nl]) w1
                    else w1)
               else (Inl (NameError ''inputfile_name''), w1))))"

section \<open>A small document, environment and world\<close>

text \<open>
  Background before and after a test section with a dead zone, a case \<open>a\<close> and an unnamed
  negated case; a prover that always finds a proof; a world that holds the document as
  the file \<open>f\<close>.
\<close>

definition example_document :: string where
  "example_document =
     ''fof(ax,axiom,(p)).'' @ [nl] @
     ''% Test runner: begin tests.'' @ [nl] @
     ''ignored'' @ [nl] @
     ''% Test case: a'' @ [nl] @
     ''fof(c,conjecture,(p)).'' @ [nl] @
     ''% Negated test case:'' @ [nl] @
     ''fof(d,conjecture,(q)).'' @ [nl] @
     ''% Test runner: end tests.'' @ [nl] @
     ''fof(bx,axiom,(r)).'' @ [nl]"

definition example_environment :: environment where
  "example_environment =
     \<lparr>eprover = (\<lambda>k input. Some (''# Proof found!'' @ [nl])),
      makedirs = (\<lambda>path. None),
      can_write = (\<lambda>path. True)\<rparr>"

definition example_world :: world where
  "example_world = \<lparr>fs = [''f'' \<mapsto> File example_document], stdout = [], prover_inputs = []\<rparr>"

text \<open>A dictionary of two test cases, the second negated.\<close>

definition example_cases :: "string \<rightharpoonup> test_case_entry" where
  "example_cases =
     [''a'' \<mapsto> \<lparr>tc_index = 1, tc_line = 4, tc_negated = False,
                tc_text = ''fof(c,conjecture,(p)).'' @ [nl]\<rparr>,
      ''n'' \<mapsto> \<lparr>tc_index = 2, tc_line = 6, tc_negated = True,
                tc_text = ''fof(d,conjecture,(q)).'' @ [nl]\<rparr>]"

text \<open>A document in which a case outside the test section and a negated case inside it share a name.\<close>

definition duplicate_document :: string where
  "duplicate_document =
     ''% Test case: a'' @ [nl] @
     ''% Test runner: begin tests.'' @ [nl] @
     ''% Negated test case: a'' @ [nl]"

text \<open>
  A document with a case outside the test section, before the begin marker; and the example
  document without the line of its dead zone.
\<close>

definition outside_case_document :: string where
  "outside_case_document =
     ''% Test case: a'' @ [nl] @
     ''fof(x,axiom,(p)).'' @ [nl] @
     ''% Test runner: begin tests.'' @ [nl] @
     ''fof(y,axiom,(q)).'' @ [nl] @
     ''% Test case: b'' @ [nl] @
     ''fof(z,conjecture,(q)).'' @ [nl] @
     ''% Test runner: end tests.'' @ [nl]"

definition example_document_without_dead_zone :: string where
  "example_document_without_dead_zone =
     ''fof(ax,axiom,(p)).'' @ [nl] @
     ''% Test runner: begin tests.'' @ [nl] @
     ''% Test case: a'' @ [nl] @
     ''fof(c,conjecture,(p)).'' @ [nl] @
     ''% Negated test case:'' @ [nl] @
     ''fof(d,conjecture,(q)).'' @ [nl] @
     ''% Test runner: end tests.'' @ [nl] @
     ''fof(bx,axiom,(r)).'' @ [nl]"

section \<open>Notions of the specification\<close>

text \<open>A line of the results file that starts with one of the three markers, and its status.\<close>

definition recognised :: "string \<Rightarrow> bool" where
  "recognised line = (starts_with ''# Proof found'' line \<or> starts_with ''# No proof found'' line
                      \<or> starts_with ''# Failure:'' line)"

definition marker_status :: "string \<Rightarrow> char" where
  "marker_status line =
     (if starts_with ''# Proof found'' line then CHR ''S''
      else if starts_with ''# No proof found'' line then CHR ''F'' else CHR ''?'')"

text \<open>
  The names that the case markers of a document yield, in order, when \<open>count\<close> cases
  came before; and the names found by a split, when it succeeds.
\<close>

fun marker_names :: "nat \<Rightarrow> string list \<Rightarrow> string list" where
  "marker_names count [] = []"
| "marker_names count (line # rest) =
     (case test_case line of
        None \<Rightarrow> marker_names count rest
      | Some (negated_group, trial_test_name) \<Rightarrow>
          test_name (count + 1) trial_test_name # marker_names (count + 1) rest)"

definition ordered_names :: "(string \<rightharpoonup> node) \<Rightarrow> string \<Rightarrow> nat \<Rightarrow> string list option" where
  "ordered_names files input_filename verbosity =
     (case split_tptp_input files input_filename False verbosity of
        Inl e \<Rightarrow> None
      | Inr (out, non_test_matter', test_case_names', test_cases') \<Rightarrow> Some test_case_names')"

text \<open>The error of a split, when it fails.\<close>

definition split_error :: "(string \<rightharpoonup> node) \<Rightarrow> string \<Rightarrow> nat \<Rightarrow> error option" where
  "split_error files input_filename verbosity =
     (case split_tptp_input files input_filename False verbosity of
        Inl e \<Rightarrow> Some e
      | Inr r \<Rightarrow> None)"

text \<open>
  The invariant of the loop that makes the lookup of the current test case safe: inside a
  test, the current name is a key of the dictionary.
\<close>

definition current_known :: "split_state \<Rightarrow> bool" where
  "current_known st = (in_test st \<longrightarrow> test_cases st (current_test_name st) \<noteq> None)"

text \<open>
  The character of the summary for a status; the input the prover gets for a case; and the
  effective status of a case run as the \<open>k\<close>-th call of the prover: the scan of what the
  prover wrote on that input, inverted when the case is negated.
\<close>

definition summary_char :: "char \<Rightarrow> char" where
  "summary_char status = (if status = CHR ''S'' then CHR ''.'' else status)"

definition prover_input :: "(string \<rightharpoonup> test_case_entry) \<Rightarrow> string \<Rightarrow> string \<Rightarrow> string" where
  "prover_input tcs background name =
     background @ (case tcs name of None \<Rightarrow> [] | Some tc \<Rightarrow> tc_text tc)"

definition effective_status ::
  "environment \<Rightarrow> (string \<rightharpoonup> test_case_entry) \<Rightarrow> string \<Rightarrow> nat \<Rightarrow> string \<Rightarrow> char" where
  "effective_status env tcs background k name =
     invert_status (case tcs name of None \<Rightarrow> False | Some tc \<Rightarrow> tc_negated tc)
       (scan_results (file_lines
          (case eprover env k (prover_input tcs background name) of
             None \<Rightarrow> [] | Some output \<Rightarrow> output)))"

text \<open>
  The kind of markup of a line, in the order in which the loop tries the patterns; the entry
  of a case and the non-test matter of a split, when it succeeds.
\<close>

datatype marker = NoMarker | CaseMarker | BeginMarker | EndMarker

definition marker_of :: "string \<Rightarrow> marker" where
  "marker_of line =
     (if test_case line \<noteq> None then CaseMarker
      else if begin_test_section line then BeginMarker
      else if end_test_section line then EndMarker
      else NoMarker)"

definition case_entry ::
  "(string \<rightharpoonup> node) \<Rightarrow> string \<Rightarrow> nat \<Rightarrow> string \<Rightarrow> test_case_entry option" where
  "case_entry files input_filename verbosity name =
     (case split_tptp_input files input_filename False verbosity of
        Inl e \<Rightarrow> None
      | Inr (out, non_test_matter', test_case_names', test_cases') \<Rightarrow> test_cases' name)"

definition split_background :: "(string \<rightharpoonup> node) \<Rightarrow> string \<Rightarrow> nat \<Rightarrow> string option" where
  "split_background files input_filename verbosity =
     (case split_tptp_input files input_filename False verbosity of
        Inl e \<Rightarrow> None
      | Inr (out, non_test_matter', test_case_names', test_cases') \<Rightarrow> Some non_test_matter')"

text \<open>
  What the loop has built when it has read the lines \<open>ls\<close>: a text made of lines of
  \<open>ls\<close> without markup; an entry whose text is the markup line that opened it, followed by
  such a text; and the invariant of the loop.
\<close>

definition plain_text :: "string list \<Rightarrow> string \<Rightarrow> bool" where
  "plain_text ls s = (\<exists>ps. s = concat ps \<and> (\<forall>p \<in> set ps. p \<in> set ls \<and> marker_of p = NoMarker))"

definition body_of_lines :: "string list \<Rightarrow> string \<Rightarrow> test_case_entry \<Rightarrow> bool" where
  "body_of_lines ls name tc =
     (1 \<le> tc_line tc \<and> tc_line tc \<le> length ls
      \<and> (\<exists>trial. test_case (ls ! (tc_line tc - 1)) = Some (tc_negated tc, trial)
                  \<and> test_name (tc_index tc) trial = name)
      \<and> (\<exists>rest. tc_text tc = ls ! (tc_line tc - 1) @ rest \<and> plain_text ls rest))"

definition split_invariant :: "string list \<Rightarrow> split_state \<Rightarrow> bool" where
  "split_invariant ls st =
     (line_count st = length ls \<and> current_known st
      \<and> plain_text ls (non_test_matter st)
      \<and> (\<forall>name tc. test_cases st name = Some tc \<longrightarrow> body_of_lines ls name tc))"

text \<open>
  The marker nearest before the end of a list of lines (\<open>NoMarker\<close> when it has none);
  whether a case is open after these lines, that is, whether the nearest case or end marker
  is a case marker; and the lines of the non-test matter of a document: the lines without
  markup that no marker precedes or whose nearest marker before them is an end marker.
\<close>

definition nearest_marker :: "string list \<Rightarrow> marker" where
  "nearest_marker ls = last (NoMarker # filter (\<lambda>m. m \<noteq> NoMarker) (map marker_of ls))"

definition case_open :: "string list \<Rightarrow> bool" where
  "case_open ls =
     (last (NoMarker # filter (\<lambda>m. m = CaseMarker \<or> m = EndMarker) (map marker_of ls))
      = CaseMarker)"

definition in_background :: "string list \<Rightarrow> bool" where
  "in_background ls = (nearest_marker ls = NoMarker \<or> nearest_marker ls = EndMarker)"

definition background_lines :: "string list \<Rightarrow> string list" where
  "background_lines ls =
     map (\<lambda>i. ls ! i)
       (filter (\<lambda>i. marker_of (ls ! i) = NoMarker \<and> in_background (take i ls)) [0..<length ls])"

text \<open>
  A split without its line numbers: an error without the line it names, each entry of the
  dictionary as its index, negation and text; and two states of the loop that differ
  in line numbers and in what was printed only.
\<close>

definition without_line :: "error \<Rightarrow> error" where
  "without_line e = (case e of DuplicateTestName name line \<Rightarrow> DuplicateTestName name 0 | _ \<Rightarrow> e)"

type_synonym entries = "string \<Rightarrow> (nat \<times> bool \<times> string) option"

definition entries_of :: "(string \<rightharpoonup> test_case_entry) \<Rightarrow> entries" where
  "entries_of tcs name = map_option (\<lambda>tc. (tc_index tc, tc_negated tc, tc_text tc)) (tcs name)"

definition unnumbered ::
  "split_state \<Rightarrow> bool \<times> bool \<times> nat \<times> string \<times> string list \<times> string \<times> entries" where
  "unnumbered st =
     (in_test st, in_non_test_matter st, current_test_count st, non_test_matter st,
      test_case_names st, current_test_name st, entries_of (test_cases st))"

definition split_content ::
  "(string \<rightharpoonup> node) \<Rightarrow> string \<Rightarrow> nat \<Rightarrow> error + (string \<times> string list \<times> entries)" where
  "split_content files input_filename verbosity =
     (case split_tptp_input files input_filename False verbosity of
        Inl e \<Rightarrow> Inl (without_line e)
      | Inr (out, non_test_matter', test_case_names', test_cases') \<Rightarrow>
          Inr (non_test_matter', test_case_names', entries_of test_cases'))"

definition content_of :: "error + split_state \<Rightarrow> error + (string \<times> string list \<times> entries)" where
  "content_of r =
     (case r of
        Inl e \<Rightarrow> Inl (without_line e)
      | Inr st \<Rightarrow> Inr (non_test_matter st, test_case_names st, entries_of (test_cases st)))"

text \<open>The first requested name that is not among the names found.\<close>

definition first_unknown :: "string list \<Rightarrow> string list \<Rightarrow> string" where
  "first_unknown tests_to_run names = hd (filter (\<lambda>name. name \<notin> set names) tests_to_run)"

section \<open>Properties\<close>

text \<open>
  C5. The negation adjustment swaps \<open>S\<close> and \<open>F\<close>, leaves \<open>?\<close> and \<open>E\<close>
  unchanged, and applied twice returns the status it started from, for every status.
\<close>

theorem negation_involution:
  "invert_status True (CHR ''S'') = CHR ''F''
   \<and> invert_status True (CHR ''F'') = CHR ''S''
   \<and> invert_status True (CHR ''?'') = CHR ''?''
   \<and> invert_status True (CHR ''E'') = CHR ''E''
   \<and> invert_status True (invert_status True status) = status"
  by (simp add: invert_status_def)

lemma scan_results_snoc: "scan_results (ls @ [l]) = scan_line (scan_results ls) l"
  by (simp add: scan_results_def)

lemma scan_results_last:
  "scan_results ls =
     (if filter recognised ls = [] then CHR ''E''
      else marker_status (last (filter recognised ls)))"
proof (induction ls rule: rev_induct)
  case Nil
  show ?case by (simp add: scan_results_def)
next
  case (snoc l ls)
  show ?case
  proof (cases "recognised l")
    case True
    then show ?thesis
      unfolding scan_results_snoc by (auto simp: scan_line_def recognised_def marker_status_def)
  next
    case False
    then have "scan_line (scan_results ls) l = scan_results ls"
      by (simp add: scan_line_def recognised_def)
    with False snoc show ?thesis unfolding scan_results_snoc by simp
  qed
qed

text \<open>
  C3. The scan reads every line, and the last line that starts with one of the three
  markers decides: \<open># Proof found\<close> gives \<open>S\<close>, \<open># No proof found\<close> gives \<open>F\<close>,
  \<open># Failure:\<close> gives \<open>?\<close>; with no such line the status is \<open>E\<close>. So a line
  \<open># No proof found\<close> followed later by a line \<open># Proof found\<close>, with no marker line
  after it, is \<open>S\<close>, and the reverse order is \<open>F\<close>.
\<close>

theorem last_match_wins:
  "scan_results ls =
     (if filter recognised ls = [] then CHR ''E''
      else marker_status (last (filter recognised ls)))
   \<and> scan_results (xs @ [''# No proof found'' @ a] @ ys @ [''# Proof found'' @ b]
                     @ filter (\<lambda>l. \<not> recognised l) zs) = CHR ''S''
   \<and> scan_results (xs @ [''# Proof found'' @ a] @ ys @ [''# No proof found'' @ b]
                     @ filter (\<lambda>l. \<not> recognised l) zs) = CHR ''F''"
proof (intro conjI)
  show "scan_results ls =
     (if filter recognised ls = [] then CHR ''E''
      else marker_status (last (filter recognised ls)))"
    by (rule scan_results_last)
next
  have p: "recognised (''# Proof found'' @ b)" by (simp add: recognised_def)
  have "filter recognised (xs @ [''# No proof found'' @ a] @ ys @ [''# Proof found'' @ b]
                     @ filter (\<lambda>l. \<not> recognised l) zs)
        = filter recognised (xs @ [''# No proof found'' @ a] @ ys) @ [''# Proof found'' @ b]"
    using p by simp
  then show "scan_results (xs @ [''# No proof found'' @ a] @ ys @ [''# Proof found'' @ b]
                     @ filter (\<lambda>l. \<not> recognised l) zs) = CHR ''S''"
    unfolding scan_results_last by (simp add: marker_status_def)
next
  have p: "recognised (''# No proof found'' @ b)" by (simp add: recognised_def)
  have "filter recognised (xs @ [''# Proof found'' @ a] @ ys @ [''# No proof found'' @ b]
                     @ filter (\<lambda>l. \<not> recognised l) zs)
        = filter recognised (xs @ [''# Proof found'' @ a] @ ys) @ [''# No proof found'' @ b]"
    using p by simp
  then show "scan_results (xs @ [''# Proof found'' @ a] @ ys @ [''# No proof found'' @ b]
                     @ filter (\<lambda>l. \<not> recognised l) zs) = CHR ''F''"
    unfolding scan_results_last by (simp add: marker_status_def)
qed

text \<open>
  C2, as the claim states it, fails: for a negated case recorded with status \<open>F\<close> the
  phrase is not "failed as intended".
\<close>

theorem status_phrase_counterexample:
  "status_message True (CHR ''F'') \<noteq> ''failed as intended''"
  by (simp add: status_message_def)

text \<open>
  C2, amended. The phrase is selected by (negated, recorded status): negated with \<open>F\<close>
  gives "unintentionally/undesirably succeeded", negated with \<open>S\<close> gives
  "failed as intended", not negated with \<open>F\<close> gives "FAILED", not negated with \<open>S\<close>
  gives "succeeded", and every other status (\<open>E\<close>, \<open>?\<close>) gives "had ERRORS" whatever
  the negation. The recorded status of a negated case is the inverted one, so a proof
  found for a negated case reads "unintentionally/undesirably succeeded".
\<close>

theorem status_phrase_table:
  "status_message True (CHR ''F'') = ''unintentionally/undesirably succeeded''
   \<and> status_message True (CHR ''S'') = ''failed as intended''
   \<and> status_message False (CHR ''F'') = ''FAILED''
   \<and> status_message False (CHR ''S'') = ''succeeded''
   \<and> status_message negated (CHR ''E'') = ''had ERRORS''
   \<and> status_message negated (CHR ''?'') = ''had ERRORS''
   \<and> status_message True (invert_status True (CHR ''S'')) = ''unintentionally/undesirably succeeded''
   \<and> status_message True (invert_status True (CHR ''F'')) = ''failed as intended''"
  by (simp add: status_message_def invert_status_def)

subsection \<open>The validation loop of \<open>run_test_cases\<close>\<close>

lemma validate_None_iff: "validate xs ys = None \<longleftrightarrow> set xs \<subseteq> set ys"
  by (induction xs) auto

lemma run_test_case_not_validation:
  "fst (run_test_case env tc ntm file dry v w) \<noteq> Inl (TestNotAvailable n)"
  by (simp add: run_test_case_def Let_def split: option.splits node.splits)

lemma run_one_not_validation:
  "fst (run_one env tcs path ntm dry v name acc w) \<noteq> Inl (TestNotAvailable n)"
proof -
  obtain r w' where rw: "run_test_case env (tcs name) ntm (path @ ''/'' @ name @ ''.txt'') dry v w = (r, w')"
    by (cases "run_test_case env (tcs name) ntm (path @ ''/'' @ name @ ''.txt'') dry v w")
  with run_test_case_not_validation [of env "tcs name" ntm "path @ ''/'' @ name @ ''.txt''" dry v w n]
  have "r \<noteq> Inl (TestNotAvailable n)" by simp
  with rw show ?thesis
    by (cases acc; cases r) (simp_all add: run_one_def Let_def)
qed

lemma run_loop_not_validation:
  "fst (run_loop env tcs path ntm dry v names acc w) \<noteq> Inl (TestNotAvailable n)"
proof (induction names arbitrary: acc w)
  case Nil
  show ?case by simp
next
  case (Cons name names)
  obtain r w' where rw: "run_one env tcs path ntm dry v name acc w = (r, w')"
    by (cases "run_one env tcs path ntm dry v name acc w")
  with run_one_not_validation [of env tcs path ntm dry v name acc w n]
  have "r \<noteq> Inl (TestNotAvailable n)" by simp
  with rw Cons.IH show ?case by (cases r) simp_all
qed

lemma report_one_not_validation:
  "fst (report_one tcs v d w) \<noteq> Inl (TestNotAvailable n)"
  by (cases d) (simp add: report_one_def Let_def split: option.splits node.splits)

lemma report_loop_not_validation:
  "fst (report_loop tcs v ds w) \<noteq> Inl (TestNotAvailable n)"
proof (induction ds arbitrary: w)
  case Nil
  show ?case by simp
next
  case (Cons d ds)
  obtain r w' where rw: "report_one tcs v d w = (r, w')"
    by (cases "report_one tcs v d w")
  with report_one_not_validation [of tcs v d w n]
  have "r \<noteq> Inl (TestNotAvailable n)" by simp
  with rw Cons.IH show ?case by (cases r) simp_all
qed

lemma create_results_path_not_validation:
  "fst (create_results_path env path w) \<noteq> Inl (TestNotAvailable n)"
  by (simp add: create_results_path_def split: option.splits node.splits)

text \<open>
  C9. Whatever names are requested, the validation loop at the top of \<open>run_test_cases\<close>
  never reaches its error branch: it looks each requested name up in the requested names
  themselves. No run of \<open>run_test_cases\<close> ends with that error.
\<close>

theorem validation_never_fails:
  "validate tests_to_run tests_to_run = None
   \<and> fst (run_test_cases env tcs tests_to_run path ntm dry v w) \<noteq> Inl (TestNotAvailable n)"
proof
  show v: "validate tests_to_run tests_to_run = None"
    by (simp add: validate_None_iff)
  obtain r1 w1 where c: "create_results_path env path w = (r1, w1)"
    by (cases "create_results_path env path w")
  obtain r2 w2 where l: "run_loop env tcs path ntm dry v tests_to_run ([], [])
      (write_stdout (''Test results:'' @ [nl] @ [nl]) w1) = (r2, w2)"
    by (cases "run_loop env tcs path ntm dry v tests_to_run ([], [])
      (write_stdout (''Test results:'' @ [nl] @ [nl]) w1)")
  have n1: "r1 \<noteq> Inl (TestNotAvailable n)"
    using create_results_path_not_validation [of env path w n] c by simp
  have n2: "r2 \<noteq> Inl (TestNotAvailable n)"
    using run_loop_not_validation [of env tcs path ntm dry v tests_to_run "([], [])" _ n] l
    by (metis fst_conv)
  show "fst (run_test_cases env tcs tests_to_run path ntm dry v w) \<noteq> Inl (TestNotAvailable n)"
  proof (cases r1)
    case (Inl e)
    with n1 c v show ?thesis by (simp add: run_test_cases_def)
  next
    case r1: (Inr u)
    show ?thesis
    proof (cases r2)
      case (Inl e)
      with n2 r1 c l v show ?thesis by (simp add: run_test_cases_def)
    next
      case (Inr acc)
      obtain ds res where acc: "acc = (ds, res)" by (cases acc)
      obtain r3 w3 where r: "report_loop tcs v ds (write_stdout ([nl] @ [nl]) w2) = (r3, w3)"
        by (cases "report_loop tcs v ds (write_stdout ([nl] @ [nl]) w2)")
      have n3: "r3 \<noteq> Inl (TestNotAvailable n)"
        using report_loop_not_validation [of tcs v ds _ n] r by (metis fst_conv)
      from Inr acc r1 c l v r n3 show ?thesis
        by (cases r3) (simp_all add: run_test_cases_def)
    qed
  qed
qed


theorem validation_never_fails_witness:
  "validate [''a'', ''zz'', ''a''] [''a'', ''zz'', ''a''] = None
   \<and> fst (run_test_cases example_environment Map.empty [''a'', ''zz'', ''a''] ''./results'' []
            False 0 example_world) \<noteq> Inl (TestNotAvailable ''zz'')"
  using validation_never_fails [of "[''a'', ''zz'', ''a'']" example_environment Map.empty
      "''./results''" "[]" False 0 example_world "''zz''"]
  by simp

subsection \<open>The parameter \<open>dry_run\<close>\<close>

lemma run_test_case_dry_run:
  "run_test_case env tc ntm file True v w = run_test_case env tc ntm file False v w"
  by (simp add: run_test_case_def)

lemma run_one_dry_run:
  "run_one env tcs path ntm True v name acc w = run_one env tcs path ntm False v name acc w"
  by (simp add: run_one_def run_test_case_dry_run)

lemma run_loop_dry_run:
  "run_loop env tcs path ntm True v names acc w = run_loop env tcs path ntm False v names acc w"
  by (induction names arbitrary: acc w)
    (simp_all add: run_one_dry_run cong: prod.case_cong sum.case_cong)

lemma run_test_cases_dry_run:
  "run_test_cases env tcs names path ntm True v w = run_test_cases env tcs names path ntm False v w"
  by (simp add: run_test_cases_def run_loop_dry_run
      cong: prod.case_cong sum.case_cong option.case_cong)

lemma split_tptp_input_dry_run:
  "split_tptp_input files name True v = split_tptp_input files name False v"
  by (simp add: split_tptp_input_def)

text \<open>
  C10. \<open>run_test_case\<close>, \<open>run_test_cases\<close> and \<open>run_test_suite\<close> take the parameter
  \<open>dry_run\<close> and never read it: with \<open>dry_run = True\<close> the prover is called on the same
  inputs, the same files are written and the same text is printed as with
  \<open>dry_run = False\<close>, for every document, selection and verbosity.
\<close>

theorem dry_run_ignored:
  "run_test_case env tc ntm file True v w = run_test_case env tc ntm file False v w
   \<and> run_test_cases env tcs names path ntm True v w
     = run_test_cases env tcs names path ntm False v w
   \<and> run_test_suite env input_filename tests_to_run True v w
     = run_test_suite env input_filename tests_to_run False v w"
  unfolding run_test_suite_def run_test_cases_dry_run split_tptp_input_dry_run
    run_test_case_dry_run
  by simp



theorem dry_run_ignored_witness:
  "run_test_suite example_environment ''f'' [''a''] True 2 example_world
     = run_test_suite example_environment ''f'' [''a''] False 2 example_world"
  using dry_run_ignored [of example_environment None "[]" "[]" 2 example_world Map.empty "[]" "[]"
      "''f''" "[''a'']"]
  by simp


subsection \<open>A requested name that the document does not have\<close>

lemma validate_first_unknown:
  "validate xs ys = (if set xs \<subseteq> set ys then None else Some (first_unknown xs ys))"
  by (induction xs) (auto simp: first_unknown_def)

lemma fs_write_stdout [simp]: "fs (write_stdout s w) = fs w"
  and prover_inputs_write_stdout [simp]: "prover_inputs (write_stdout s w) = prover_inputs w"
  by (simp_all add: write_stdout_def)

text \<open>
  C8. When the split of the document succeeds and a requested name is not among the names
  found, \<open>run_test_suite\<close> ends with the error "given test name not found in the given
  input file" for the first such name, and up to then the prover has not been called and
  no file or directory has been created.
\<close>

theorem unknown_test_case_aborts:
  assumes "ordered_names (fs w) input_filename verbosity = Some names"
    and "name \<in> set tests_to_run" and "name \<notin> set names"
  shows "fst (run_test_suite env input_filename tests_to_run dry_run verbosity w)
           = Inl (TestNotInInputFile (first_unknown tests_to_run names))
         \<and> first_unknown tests_to_run names \<in> set tests_to_run
         \<and> first_unknown tests_to_run names \<notin> set names
         \<and> prover_inputs (snd (run_test_suite env input_filename tests_to_run dry_run verbosity w))
             = prover_inputs w
         \<and> fs (snd (run_test_suite env input_filename tests_to_run dry_run verbosity w)) = fs w"
proof -
  from assms(1) obtain out ntm tcs where
    split: "split_tptp_input (fs w) input_filename dry_run verbosity = Inr (out, ntm, names, tcs)"
    by (auto simp: ordered_names_def split_tptp_input_def split: sum.splits option.splits node.splits)
  from assms(2,3) have ns: "\<not> set tests_to_run \<subseteq> set names" by auto
  then have v: "validate tests_to_run names = Some (first_unknown tests_to_run names)"
    by (simp add: validate_first_unknown)
  from ns have "filter (\<lambda>name. name \<notin> set names) tests_to_run \<noteq> []"
    by (auto simp: filter_empty_conv)
  then have "hd (filter (\<lambda>name. name \<notin> set names) tests_to_run)
               \<in> set (filter (\<lambda>name. name \<notin> set names) tests_to_run)"
    by (rule hd_in_set)
  then have m: "first_unknown tests_to_run names \<in> set tests_to_run"
    "first_unknown tests_to_run names \<notin> set names"
    by (simp_all add: first_unknown_def)
  from split v show ?thesis
    by (simp add: run_test_suite_def Let_def m)
qed

theorem unknown_test_case_aborts_witness:
  "ordered_names (fs example_world) ''f'' 0 = Some [''a'', ''Test-2'']
   \<and> fst (run_test_suite example_environment ''f'' [''a'', ''zz''] False 0 example_world)
       = Inl (TestNotInInputFile ''zz'')
   \<and> prover_inputs (snd (run_test_suite example_environment ''f'' [''a'', ''zz''] False 0
         example_world)) = []"
proof -
  have h: "ordered_names (fs example_world) ''f'' 0 = Some [''a'', ''Test-2'']"
    by code_simp
  have u: "first_unknown [''a'', ''zz''] [''a'', ''Test-2''] = ''zz''"
    by (simp add: first_unknown_def)
  have p: "prover_inputs example_world = []"
    by (simp add: example_world_def)
  from unknown_test_case_aborts [OF h, of "''zz''" "[''a'', ''zz'']" example_environment False]
  show ?thesis using h u p by simp
qed


subsection \<open>Names of the test cases\<close>

lemma read_line_case_duplicate:
  assumes "test_case line = Some (neg, trial)"
    and "test_cases st (test_name (current_test_count st + 1) trial) \<noteq> None"
  shows "read_line v st line
         = Inl (DuplicateTestName (test_name (current_test_count st + 1) trial) (line_count st + 1))"
  using assms by (simp add: read_line_def markup_def Let_def)

lemma read_line_case_new:
  assumes "test_case line = Some (neg, trial)"
    and "test_cases st (test_name (current_test_count st + 1) trial) = None"
  shows "\<exists>st'. read_line v st line = Inr st'
           \<and> test_cases st' = (test_cases st)(test_name (current_test_count st + 1) trial \<mapsto>
                 \<lparr>tc_index = current_test_count st + 1, tc_line = line_count st + 1,
                  tc_negated = neg, tc_text = line\<rparr>)
           \<and> current_test_count st' = current_test_count st + 1
           \<and> test_case_names st' = test_case_names st @ [test_name (current_test_count st + 1) trial]
           \<and> current_test_name st' = test_name (current_test_count st + 1) trial
           \<and> in_test st' \<and> \<not> in_non_test_matter st'
           \<and> non_test_matter st' = non_test_matter st
           \<and> line_count st' = line_count st + 1"
  using assms by (simp add: read_line_def markup_def dispatch_def Let_def)

lemma read_line_other:
  assumes "test_case line = None" and "current_known st"
  shows "\<exists>st'. read_line v st line = Inr st'
           \<and> dom (test_cases st') = dom (test_cases st)
           \<and> current_test_count st' = current_test_count st
           \<and> test_case_names st' = test_case_names st
           \<and> current_known st'
           \<and> line_count st' = line_count st + 1"
  using assms
  by (auto simp: read_line_def markup_def dispatch_def Let_def current_known_def
      split: option.splits)

lemma read_lines_names:
  assumes "current_known st"
  shows "case read_lines v st lines of
           Inl e \<Rightarrow> (\<exists>n k. e = DuplicateTestName n k)
                    \<and> \<not> (distinct (marker_names (current_test_count st) lines)
                          \<and> set (marker_names (current_test_count st) lines) \<inter> dom (test_cases st) = {})
         | Inr st' \<Rightarrow> distinct (marker_names (current_test_count st) lines)
                    \<and> set (marker_names (current_test_count st) lines) \<inter> dom (test_cases st) = {}
                    \<and> dom (test_cases st') = dom (test_cases st) \<union> set (marker_names (current_test_count st) lines)
                    \<and> test_case_names st' = test_case_names st @ marker_names (current_test_count st) lines
                    \<and> current_known st'"
  using assms
proof (induction lines arbitrary: st)
  case Nil
  then show ?case by simp
next
  case (Cons line lines)
  show ?case
  proof (cases "test_case line")
    case None
    from read_line_other [OF None Cons.prems, of v] obtain st' where
      st': "read_line v st line = Inr st'" "dom (test_cases st') = dom (test_cases st)"
        "current_test_count st' = current_test_count st"
        "test_case_names st' = test_case_names st" "current_known st'"
      by blast
    from Cons.IH [OF st'(5)] st' None show ?thesis
      by (simp split: sum.splits)
  next
    case (Some p)
    obtain neg trial where p: "p = (neg, trial)" by (cases p)
    let ?name = "test_name (current_test_count st + 1) trial"
    show ?thesis
    proof (cases "test_cases st ?name")
      case (Some tc)
      then have "test_cases st ?name \<noteq> None" by simp
      from read_line_case_duplicate [OF \<open>test_case line = Some p\<close> [unfolded p] this, of v]
      show ?thesis using Some \<open>test_case line = Some p\<close> p by (auto simp: domIff)
    next
      case None
      from read_line_case_new [OF \<open>test_case line = Some p\<close> [unfolded p] None, of v]
      obtain st' where
        st': "read_line v st line = Inr st'"
          "test_cases st' = (test_cases st)(?name \<mapsto>
                 \<lparr>tc_index = current_test_count st + 1, tc_line = line_count st + 1,
                  tc_negated = neg, tc_text = line\<rparr>)"
          "current_test_count st' = current_test_count st + 1"
          "test_case_names st' = test_case_names st @ [?name]"
          "current_test_name st' = ?name" "in_test st'"
        by blast
      from st' have k: "current_known st'" by (simp add: current_known_def)
      from st'(2) have d: "dom (test_cases st') = insert ?name (dom (test_cases st))" by simp
      from None have fresh: "?name \<notin> dom (test_cases st)" by (simp add: domIff)
      have ms: "marker_names (current_test_count st) (line # lines)
                = ?name # marker_names (current_test_count st') lines"
        using \<open>test_case line = Some p\<close> p st'(3) by simp
      show ?thesis
      proof (cases "read_lines v st' lines")
        case (Inl e)
        with Cons.IH [OF k] have e: "\<exists>n k. e = DuplicateTestName n k"
          and n: "\<not> (distinct (marker_names (current_test_count st') lines)
                  \<and> set (marker_names (current_test_count st') lines) \<inter> dom (test_cases st') = {})"
          by simp_all
        from n d have "\<not> (distinct (?name # marker_names (current_test_count st') lines)
                  \<and> set (?name # marker_names (current_test_count st') lines) \<inter> dom (test_cases st) = {})"
          by auto
        with e Inl st'(1) ms show ?thesis by simp
      next
        case (Inr st'')
        with Cons.IH [OF k] have
          i: "distinct (marker_names (current_test_count st') lines)"
             "set (marker_names (current_test_count st') lines) \<inter> dom (test_cases st') = {}"
             "dom (test_cases st'') = dom (test_cases st') \<union> set (marker_names (current_test_count st') lines)"
             "test_case_names st'' = test_case_names st' @ marker_names (current_test_count st') lines"
             "current_known st''"
          by simp_all
        from i(1,2) d fresh have
          "distinct (?name # marker_names (current_test_count st') lines)"
          "set (?name # marker_names (current_test_count st') lines) \<inter> dom (test_cases st) = {}"
          by auto
        moreover from i(3) d have "dom (test_cases st'')
            = dom (test_cases st) \<union> set (?name # marker_names (current_test_count st') lines)"
          by auto
        moreover from i(4) st'(4) have "test_case_names st''
            = test_case_names st @ ?name # marker_names (current_test_count st') lines"
          by simp
        ultimately show ?thesis using Inr st'(1) ms i(5) by simp
      qed
    qed
  qed
qed


lemma current_known_initial: "current_known initial_state"
  by (simp add: current_known_def initial_state_def)

text \<open>
  C7. When two case markers of the document yield the same name, the split ends with the
  error "test with duplicate name", whether or not a marker is negated and wherever the
  markers stand; \<open>run_test_suite\<close> ends with the same error, the prover is never called
  and no file is written.
\<close>

theorem duplicate_name_is_fatal:
  assumes "fs w input_filename = Some (File content)"
    and "\<not> distinct (marker_names 0 (file_lines content))"
  shows "(\<exists>name line.
            split_tptp_input (fs w) input_filename dry_run verbosity
              = Inl (DuplicateTestName name line)
            \<and> fst (run_test_suite env input_filename tests_to_run dry_run verbosity w)
              = Inl (DuplicateTestName name line))
         \<and> prover_inputs (snd (run_test_suite env input_filename tests_to_run dry_run verbosity w))
             = prover_inputs w
         \<and> fs (snd (run_test_suite env input_filename tests_to_run dry_run verbosity w)) = fs w"
proof -
  have c: "current_test_count initial_state = 0" by (simp add: initial_state_def)
  from read_lines_names [OF current_known_initial, where v = verbosity and lines = "file_lines content"] assms(2)
  obtain name line where
    "read_lines verbosity initial_state (file_lines content) = Inl (DuplicateTestName name line)"
    by (auto simp: c split: sum.splits)
  with assms(1) have
    s: "split_tptp_input (fs w) input_filename dry_run verbosity = Inl (DuplicateTestName name line)"
    by (simp add: split_tptp_input_def)
  then show ?thesis
    by (simp add: run_test_suite_def Let_def)
qed

theorem duplicate_name_is_fatal_witness:
  "\<not> distinct (marker_names 0 (file_lines duplicate_document))
   \<and> split_error [''f'' \<mapsto> File duplicate_document] ''f'' 0 = Some (DuplicateTestName ''a'' 3)
   \<and> prover_inputs (snd (run_test_suite example_environment ''f'' [] False 0
         \<lparr>fs = [''f'' \<mapsto> File duplicate_document], stdout = [], prover_inputs = []\<rparr>)) = []"
proof -
  have h1: "fs \<lparr>fs = [''f'' \<mapsto> File duplicate_document], stdout = [], prover_inputs = []\<rparr> ''f''
            = Some (File duplicate_document)"
    by simp
  have h2: "\<not> distinct (marker_names 0 (file_lines duplicate_document))"
    by code_simp
  have e: "split_error [''f'' \<mapsto> File duplicate_document] ''f'' 0
             = Some (DuplicateTestName ''a'' 3)"
    by code_simp
  from duplicate_name_is_fatal [OF h1 h2, of False 0 example_environment "[]"] h2 e
  show ?thesis by simp
qed


subsection \<open>The summary string\<close>

lemma run_test_case_result:
  assumes "run_test_case env tc ntm file dry v w = (Inr status, w')"
  shows "\<exists>output. eprover env (length (prover_inputs w))
                    (ntm @ (case tc of None \<Rightarrow> [] | Some e \<Rightarrow> tc_text e)) = Some output
           \<and> status = scan_results (file_lines output)
           \<and> prover_inputs w' = prover_inputs w @ [ntm @ (case tc of None \<Rightarrow> [] | Some e \<Rightarrow> tc_text e)]
           \<and> stdout w' = stdout w"
  using assms
  by (auto simp: run_test_case_def Let_def split: if_splits option.splits node.splits)

lemma run_one_result:
  assumes "run_one env tcs path ntm dry v name (details, results) w = (Inr (details', results'), w')"
  shows "results' = results @ [summary_char (effective_status env tcs ntm (length (prover_inputs w)) name)]
         \<and> stdout w' = stdout w @ [summary_char (effective_status env tcs ntm (length (prover_inputs w)) name)] # []
         \<and> prover_inputs w' = prover_inputs w @ [prover_input tcs ntm name]"
proof -
  obtain r w1 where rw: "run_test_case env (tcs name) ntm (path @ ''/'' @ name @ ''.txt'') dry v w = (r, w1)"
    by (cases "run_test_case env (tcs name) ntm (path @ ''/'' @ name @ ''.txt'') dry v w")
  with assms obtain status where r: "r = Inr status"
    by (cases r) (simp_all add: run_one_def Let_def)
  from run_test_case_result [OF rw [unfolded r]] obtain out where
    o: "eprover env (length (prover_inputs w)) (prover_input tcs ntm name) = Some out"
      "status = scan_results (file_lines out)"
      "prover_inputs w1 = prover_inputs w @ [prover_input tcs ntm name]"
      "stdout w1 = stdout w"
    by (auto simp: prover_input_def)
  then have e: "effective_status env tcs ntm (length (prover_inputs w)) name
             = invert_status (case tcs name of None \<Rightarrow> False | Some tc \<Rightarrow> tc_negated tc) status"
    by (simp add: effective_status_def)
  from assms rw r o(3,4) show ?thesis
    unfolding e
    by (auto simp: run_one_def Let_def summary_char_def write_stdout_def split: if_splits)
qed

lemma run_loop_result:
  assumes "run_loop env tcs path ntm dry v names (details, results) w = (Inr (details', results'), w')"
  shows "results' = results @ map (\<lambda>i. summary_char (effective_status env tcs ntm
                                        (length (prover_inputs w) + i) (names ! i)))
                                 [0..<length names]
         \<and> stdout w' = stdout w @ map (\<lambda>c. [c]) (drop (length results) results')
         \<and> prover_inputs w' = prover_inputs w @ map (prover_input tcs ntm) names"
  using assms
proof (induction names arbitrary: details results w)
  case Nil
  then show ?case by simp
next
  case (Cons name names)
  obtain r w1 where rw: "run_one env tcs path ntm dry v name (details, results) w = (r, w1)"
    by (cases "run_one env tcs path ntm dry v name (details, results) w")
  with Cons.prems obtain d1 r1 where r: "r = Inr (d1, r1)"
    by (cases r) auto
  from Cons.prems rw r have
    rest: "run_loop env tcs path ntm dry v names (d1, r1) w1 = (Inr (details', results'), w')"
    by simp
  note one = run_one_result [OF rw [unfolded r]]
  note ih = Cons.IH [OF rest]
  let ?c = "\<lambda>k name. summary_char (effective_status env tcs ntm k name)"
  have idx: "map (\<lambda>i. ?c (length (prover_inputs w) + i) ((name # names) ! i)) [0..<length (name # names)]
             = ?c (length (prover_inputs w)) name
               # map (\<lambda>i. ?c (length (prover_inputs w1) + i) (names ! i)) [0..<length names]"
  proof -
    have "[0..<length (name # names)] = 0 # map Suc [0..<length names]"
      by (simp add: upt_conv_Cons map_Suc_upt del: upt_Suc)
    then show ?thesis using one by (simp add: comp_def)
  qed
  from one ih show ?case unfolding idx by simp
qed


lemma scan_results_range:
  "scan_results ls \<in> {CHR ''S'', CHR ''F'', CHR ''?'', CHR ''E''}"
proof (induction ls rule: rev_induct)
  case Nil
  show ?case by (simp add: scan_results_def)
next
  case (snoc l ls)
  have "scan_results (ls @ [l]) = scan_line (scan_results ls) l"
    by (simp add: scan_results_def)
  with snoc show ?case by (auto simp: scan_line_def)
qed

lemma summary_char_range:
  "summary_char (effective_status env tcs ntm k name)
     \<in> {CHR ''.'', CHR ''F'', CHR ''E'', CHR ''?''}"
  using scan_results_range [of "file_lines (case eprover env k (prover_input tcs ntm name) of
             None \<Rightarrow> [] | Some output \<Rightarrow> output)"]
  by (auto simp: summary_char_def effective_status_def invert_status_def)

text \<open>
  C4. When the loop over the selected cases runs to its end, the summary string has one
  character for each selected case, in the order of the selection: the \<open>i\<close>-th is a dot
  when the effective status of the \<open>i\<close>-th case is \<open>S\<close>, and the letter of the status
  (\<open>F\<close>, \<open>E\<close> or \<open>?\<close>) otherwise. The same characters, and nothing else, are printed by
  the loop.
\<close>

theorem summary_string:
  assumes "fst (run_loop env tcs path ntm dry v names ([], []) w) = Inr (details', results')"
  shows "length results' = length names
         \<and> (\<forall>i < length names.
               results' ! i = summary_char (effective_status env tcs ntm
                                              (length (prover_inputs w) + i) (names ! i)))
         \<and> set results' \<subseteq> {CHR ''.'', CHR ''F'', CHR ''E'', CHR ''?''}
         \<and> concat (stdout (snd (run_loop env tcs path ntm dry v names ([], []) w)))
             = concat (stdout w) @ results'"
proof -
  obtain r w' where rw: "run_loop env tcs path ntm dry v names ([], []) w = (r, w')"
    by (cases "run_loop env tcs path ntm dry v names ([], []) w")
  with assms have "run_loop env tcs path ntm dry v names ([], []) w = (Inr (details', results'), w')"
    by simp
  note res = run_loop_result [OF this]
  from res have eq: "results' = map (\<lambda>i. summary_char (effective_status env tcs ntm
                                        (length (prover_inputs w) + i) (names ! i)))
                                 [0..<length names]"
    by simp
  have len: "length results' = length names"
    by (subst eq) simp
  have nth: "\<forall>i < length names.
               results' ! i = summary_char (effective_status env tcs ntm
                                              (length (prover_inputs w) + i) (names ! i))"
    by (subst eq) simp
  have rng: "set results' \<subseteq> {CHR ''.'', CHR ''F'', CHR ''E'', CHR ''?''}"
  proof
    fix c
    assume "c \<in> set results'"
    then obtain i where "i < length results'" and "c = results' ! i"
      by (auto simp: in_set_conv_nth)
    with len nth have "c = summary_char (effective_status env tcs ntm
                                          (length (prover_inputs w) + i) (names ! i))"
      by simp
    then show "c \<in> {CHR ''.'', CHR ''F'', CHR ''E'', CHR ''?''}"
      by (simp only: summary_char_range)
  qed
  have "concat (map (\<lambda>c. [c]) results') = results'"
    by (induction results') simp_all
  with res have out: "concat (stdout w') = concat (stdout w) @ results'"
    by simp
  from len nth rng out rw show ?thesis by simp
qed

theorem summary_string_witness:
  "fst (run_loop example_environment example_cases ''./results'' ''fof(ax,axiom,(p)).'' False 0
          [''a'', ''n''] ([], []) example_world)
     = Inr ([(''n'', CHR ''F'', ''./results/n.txt'')], ''.F'')
   \<and> length ''.F'' = length [''a'', ''n'']
   \<and> ''.F'' ! 1 = summary_char (effective_status example_environment example_cases
                      ''fof(ax,axiom,(p)).'' (length (prover_inputs example_world) + 1)
                      ([''a'', ''n''] ! 1))
   \<and> effective_status example_environment example_cases ''fof(ax,axiom,(p)).'' 1 ''n'' = CHR ''F''"
proof -
  have h: "fst (run_loop example_environment example_cases ''./results'' ''fof(ax,axiom,(p)).''
                 False 0 [''a'', ''n''] ([], []) example_world)
           = Inr ([(''n'', CHR ''F'', ''./results/n.txt'')], ''.F'')"
    by code_simp
  have e: "effective_status example_environment example_cases ''fof(ax,axiom,(p)).'' 1 ''n''
           = CHR ''F''"
    by code_simp
  note t = summary_string [OF h]
  from t have l: "length ''.F'' = length [''a'', ''n'']"
    by (rule conjunct1)
  from t have "\<forall>i < length [''a'', ''n''].
      ''.F'' ! i = summary_char (effective_status example_environment example_cases
                      ''fof(ax,axiom,(p)).'' (length (prover_inputs example_world) + i)
                      ([''a'', ''n''] ! i))"
    by (rule conjunct1 [OF conjunct2])
  moreover have "(1::nat) < length [''a'', ''n'']" by simp
  ultimately have n: "''.F'' ! 1 = summary_char (effective_status example_environment example_cases
                      ''fof(ax,axiom,(p)).'' (length (prover_inputs example_world) + 1)
                      ([''a'', ''n''] ! 1))"
    by blast
  from h l n e show ?thesis by (intro conjI)
qed


subsection \<open>The lines of a case body\<close>

lemma read_lines_snoc:
  "read_lines v st (ls @ [l])
   = (case read_lines v st ls of Inl e \<Rightarrow> Inl e | Inr st' \<Rightarrow> read_line v st' l)"
  by (induction ls arbitrary: st) (simp_all split: sum.splits)

lemma plain_text_Nil: "plain_text ls []"
  unfolding plain_text_def by (rule exI [of _ "[]"]) simp

lemma plain_text_snoc: "plain_text ls s \<Longrightarrow> plain_text (ls @ [l]) s"
  unfolding plain_text_def by auto

lemma plain_text_append_plain:
  assumes "plain_text ls s" and "marker_of l = NoMarker"
  shows "plain_text (ls @ [l]) (s @ l)"
proof -
  from assms(1) obtain ps where "s = concat ps" "\<forall>p \<in> set ps. p \<in> set ls \<and> marker_of p = NoMarker"
    unfolding plain_text_def by blast
  with assms(2) have "s @ l = concat (ps @ [l])"
    "\<forall>p \<in> set (ps @ [l]). p \<in> set (ls @ [l]) \<and> marker_of p = NoMarker"
    by auto
  then show ?thesis unfolding plain_text_def by blast
qed

lemma body_of_lines_snoc: "body_of_lines ls name tc \<Longrightarrow> body_of_lines (ls @ [l]) name tc"
  unfolding body_of_lines_def by (auto simp: nth_append intro: plain_text_snoc)

lemma body_of_lines_append_plain:
  assumes "body_of_lines ls name tc" and "marker_of l = NoMarker"
  shows "body_of_lines (ls @ [l]) name (tc\<lparr>tc_text := tc_text tc @ l\<rparr>)"
proof -
  from assms(1) obtain rest trial where
    b: "1 \<le> tc_line tc" "tc_line tc \<le> length ls"
      "test_case (ls ! (tc_line tc - 1)) = Some (tc_negated tc, trial)"
      "test_name (tc_index tc) trial = name"
      "tc_text tc = ls ! (tc_line tc - 1) @ rest" "plain_text ls rest"
    unfolding body_of_lines_def by blast
  from b(5) have "tc_text tc @ l = ls ! (tc_line tc - 1) @ (rest @ l)" by simp
  moreover from b(6) assms(2) have "plain_text (ls @ [l]) (rest @ l)"
    by (rule plain_text_append_plain)
  ultimately show ?thesis
    unfolding body_of_lines_def using b(1,2,3,4) by (auto simp: nth_append)
qed

lemma body_of_lines_new:
  assumes "test_case l = Some (neg, trial)"
  shows "body_of_lines (ls @ [l]) (test_name i trial)
           \<lparr>tc_index = i, tc_line = length ls + 1, tc_negated = neg, tc_text = l\<rparr>"
  unfolding body_of_lines_def using assms plain_text_Nil [of "ls @ [l]"]
  by (auto simp: nth_append)

lemma read_line_invariant:
  assumes "split_invariant ls st" and "read_line v st l = Inr st'"
  shows "split_invariant (ls @ [l]) st'"
proof (cases "test_case l")
  case (Some p)
  obtain neg trial where p: "p = (neg, trial)" by (cases p)
  from Some have m: "marker_of l = CaseMarker" by (simp add: marker_of_def)
  let ?name = "test_name (current_test_count st + 1) trial"
  have none: "test_cases st ?name = None"
  proof (rule ccontr)
    assume "test_cases st ?name \<noteq> None"
    from read_line_case_duplicate [OF Some [unfolded p] this, of v] assms(2) show False by simp
  qed
  from read_line_case_new [OF Some [unfolded p] none, of v] assms(2) have
    st': "test_cases st' = (test_cases st)(?name \<mapsto>
             \<lparr>tc_index = current_test_count st + 1, tc_line = line_count st + 1,
              tc_negated = neg, tc_text = l\<rparr>)"
      "current_test_name st' = ?name" "in_test st'"
      "non_test_matter st' = non_test_matter st" "line_count st' = line_count st + 1"
    by auto
  from assms(1) have inv: "line_count st = length ls" "plain_text ls (non_test_matter st)"
    "\<forall>name tc. test_cases st name = Some tc \<longrightarrow> body_of_lines ls name tc"
    by (simp_all add: split_invariant_def)
  from st' inv(1) have "line_count st' = length (ls @ [l])" by simp
  moreover from st' have "current_known st'" by (simp add: current_known_def)
  moreover from st'(4) inv(2) have "plain_text (ls @ [l]) (non_test_matter st')"
    by (simp add: plain_text_snoc)
  moreover have "\<forall>name tc. test_cases st' name = Some tc \<longrightarrow> body_of_lines (ls @ [l]) name tc"
    using st'(1) inv(1,3) body_of_lines_new [OF Some [unfolded p]] body_of_lines_snoc
    by (auto split: if_splits)
  ultimately show ?thesis by (simp add: split_invariant_def)
next
  case None
  from assms(1) have inv: "line_count st = length ls" "plain_text ls (non_test_matter st)"
    "\<forall>name tc. test_cases st name = Some tc \<longrightarrow> body_of_lines ls name tc" "current_known st"
    by (simp_all add: split_invariant_def)
  show ?thesis
  proof (cases "marker_of l = NoMarker")
    case True
    with None have nb: "\<not> begin_test_section l" "\<not> end_test_section l"
      by (auto simp: marker_of_def split: if_splits)
    from assms(2) None nb inv show ?thesis
      using body_of_lines_append_plain [OF _ True] body_of_lines_snoc plain_text_snoc
        plain_text_append_plain [OF _ True]
      by (auto simp: read_line_def markup_def dispatch_def split_invariant_def current_known_def
          split: if_splits option.splits)
  next
    case False
    with None have "begin_test_section l \<or> end_test_section l"
      by (auto simp: marker_of_def split: if_splits)
    with assms(2) None inv show ?thesis
      using body_of_lines_snoc plain_text_snoc
      by (auto simp: read_line_def markup_def dispatch_def split_invariant_def current_known_def
          split: if_splits)
  qed
qed

lemma split_invariant_initial: "split_invariant [] initial_state"
  by (simp add: split_invariant_def initial_state_def current_known_def plain_text_Nil)

lemma read_lines_invariant:
  "read_lines v initial_state ls = Inr st \<Longrightarrow> split_invariant ls st"
proof (induction ls arbitrary: st rule: rev_induct)
  case Nil
  then show ?case using split_invariant_initial by simp
next
  case (snoc l ls)
  from snoc.prems obtain st0 where
    "read_lines v initial_state ls = Inr st0" "read_line v st0 l = Inr st"
    by (auto simp: read_lines_snoc split: sum.splits)
  with snoc.IH show ?case by (blast intro: read_line_invariant)
qed


text \<open>
  C1, as the claim states it, fails: the body of the case \<open>a\<close> of the example document
  begins with the marker line that opens the case.
\<close>

theorem case_body_counterexample:
  "case_entry [''f'' \<mapsto> File example_document] ''f'' 0 ''a''
     = Some \<lparr>tc_index = 1, tc_line = 4, tc_negated = False,
             tc_text = ''% Test case: a'' @ [nl] @ ''fof(c,conjecture,(p)).'' @ [nl]\<rparr>
   \<and> marker_of (''% Test case: a'' @ [nl]) = CaseMarker"
  by code_simp

text \<open>
  C1, amended. The body of every extracted case is the marker line that opened the case
  (the line at the case's \<open>line\<close>, which yields the case's name and negation) followed by
  lines of the document without markup only; the non-test matter consists of lines of the
  document without markup only. So no begin or end marker line is appended to the non-test
  matter or to a body, and a case marker line is appended to the body of the case it opens
  and to nothing else.
\<close>

theorem case_body_lines:
  assumes "files input_filename = Some (File content)"
    and "case_entry files input_filename verbosity name = Some tc"
  shows "1 \<le> tc_line tc \<and> tc_line tc \<le> length (file_lines content)
         \<and> marker_of (file_lines content ! (tc_line tc - 1)) = CaseMarker
         \<and> (\<exists>trial. test_case (file_lines content ! (tc_line tc - 1)) = Some (tc_negated tc, trial)
                     \<and> test_name (tc_index tc) trial = name)
         \<and> (\<exists>ps. tc_text tc = file_lines content ! (tc_line tc - 1) @ concat ps
                  \<and> (\<forall>p \<in> set ps. p \<in> set (file_lines content) \<and> marker_of p = NoMarker))
         \<and> (\<exists>qs. split_background files input_filename verbosity = Some (concat qs)
                  \<and> (\<forall>q \<in> set qs. q \<in> set (file_lines content) \<and> marker_of q = NoMarker))"
proof -
  from assms obtain st where
    r: "read_lines verbosity initial_state (file_lines content) = Inr st"
    and t: "test_cases st name = Some tc"
    and b: "split_background files input_filename verbosity = Some (non_test_matter st)"
    by (auto simp: case_entry_def split_background_def split_tptp_input_def split: sum.splits)
  from read_lines_invariant [OF r] t have
    body: "body_of_lines (file_lines content) name tc"
    and bg: "plain_text (file_lines content) (non_test_matter st)"
    by (simp_all add: split_invariant_def)
  from body obtain trial rest where
    c: "1 \<le> tc_line tc" "tc_line tc \<le> length (file_lines content)"
      "test_case (file_lines content ! (tc_line tc - 1)) = Some (tc_negated tc, trial)"
      "test_name (tc_index tc) trial = name"
      "tc_text tc = file_lines content ! (tc_line tc - 1) @ rest"
      "plain_text (file_lines content) rest"
    unfolding body_of_lines_def by blast
  from c(3) have m: "marker_of (file_lines content ! (tc_line tc - 1)) = CaseMarker"
    by (simp add: marker_of_def)
  from c(5,6) have ps: "\<exists>ps. tc_text tc = file_lines content ! (tc_line tc - 1) @ concat ps
                  \<and> (\<forall>p \<in> set ps. p \<in> set (file_lines content) \<and> marker_of p = NoMarker)"
    unfolding plain_text_def by blast
  from bg b have qs: "\<exists>qs. split_background files input_filename verbosity = Some (concat qs)
                  \<and> (\<forall>q \<in> set qs. q \<in> set (file_lines content) \<and> marker_of q = NoMarker)"
    unfolding plain_text_def by auto
  from c(1,2,3,4) m ps qs show ?thesis by blast
qed

theorem case_body_lines_witness:
  "case_entry [''f'' \<mapsto> File example_document] ''f'' 0 ''Test-2''
     = Some \<lparr>tc_index = 2, tc_line = 6, tc_negated = True,
             tc_text = ''% Negated test case:'' @ [nl] @ ''fof(d,conjecture,(q)).'' @ [nl]\<rparr>
   \<and> marker_of (file_lines example_document ! (6 - 1)) = CaseMarker
   \<and> file_lines example_document ! (6 - 1) = ''% Negated test case:'' @ [nl]"
proof -
  have h1: "[''f'' \<mapsto> File example_document] ''f'' = Some (File example_document)"
    by simp
  have h2: "case_entry [''f'' \<mapsto> File example_document] ''f'' 0 ''Test-2''
     = Some \<lparr>tc_index = 2, tc_line = 6, tc_negated = True,
             tc_text = ''% Negated test case:'' @ [nl] @ ''fof(d,conjecture,(q)).'' @ [nl]\<rparr>"
    by code_simp
  have l: "file_lines example_document ! (6 - 1) = ''% Negated test case:'' @ [nl]"
    by code_simp
  from case_body_lines [OF h1 h2] have
    "marker_of (file_lines example_document ! (6 - 1)) = CaseMarker"
    by simp
  with h2 l show ?thesis by (intro conjI)
qed


subsection \<open>The dead zone and the non-test matter\<close>

lemma entries_of_None: "entries_of tcs name = None \<longleftrightarrow> tcs name = None"
  by (simp add: entries_of_def)

lemma entries_of_upd:
  "entries_of (tcs(name \<mapsto> tc)) = (entries_of tcs)(name \<mapsto> (tc_index tc, tc_negated tc, tc_text tc))"
  by (auto simp: entries_of_def fun_eq_iff)

lemma read_line_unnumbered:
  assumes "unnumbered st = unnumbered st'"
  shows "map_sum without_line unnumbered (read_line v st l)
         = map_sum without_line unnumbered (read_line v' st' l)"
proof -
  from assms have eq: "in_test st = in_test st'" "in_non_test_matter st = in_non_test_matter st'"
    "current_test_count st = current_test_count st'" "non_test_matter st = non_test_matter st'"
    "test_case_names st = test_case_names st'" "current_test_name st = current_test_name st'"
    "entries_of (test_cases st) = entries_of (test_cases st')"
    by (simp_all add: unnumbered_def)
  from eq(7) have none: "\<And>name. test_cases st name = None \<longleftrightarrow> test_cases st' name = None"
    by (metis entries_of_None)
  have some: "\<exists>tc'. test_cases st' name = Some tc' \<and> tc_index tc' = tc_index tc
            \<and> tc_negated tc' = tc_negated tc \<and> tc_text tc' = tc_text tc"
    if a: "test_cases st name = Some tc" for name tc
  proof -
    from eq(7) have "entries_of (test_cases st) name = entries_of (test_cases st') name" by simp
    with a show ?thesis by (cases "test_cases st' name") (auto simp: entries_of_def)
  qed
  show ?thesis
  proof (cases "test_case l")
    case (Some p)
    obtain neg trial where p: "p = (neg, trial)" by (cases p)
    show ?thesis
    proof (cases "test_cases st (test_name (current_test_count st + 1) trial)")
      case None
      with none have None': "test_cases st' (test_name (current_test_count st' + 1) trial) = None"
        by (simp add: eq(3))
      from read_line_case_new [OF Some [unfolded p] None, of v]
        read_line_case_new [OF Some [unfolded p] None', of v']
      show ?thesis using eq
        by (auto simp: unnumbered_def entries_of_upd)
    next
      case (Some tc)
      then have d: "test_cases st (test_name (current_test_count st + 1) trial) \<noteq> None" by simp
      with none have d': "test_cases st' (test_name (current_test_count st' + 1) trial) \<noteq> None"
        by (simp add: eq(3))
      from read_line_case_duplicate [OF \<open>test_case l = Some p\<close> [unfolded p] d, of v]
        read_line_case_duplicate [OF \<open>test_case l = Some p\<close> [unfolded p] d', of v']
      show ?thesis using eq by (simp add: without_line_def)
    qed
  next
    case None
    show ?thesis
    proof (cases "in_test st")
      case False
      with None eq show ?thesis
        by (simp add: read_line_def markup_def dispatch_def unnumbered_def)
    next
      case True
      show ?thesis
      proof (cases "test_cases st (current_test_name st)")
        case None': None
        with none eq(6) have "test_cases st' (current_test_name st') = None" by simp
        with None None' True eq show ?thesis
          by (simp add: read_line_def markup_def dispatch_def unnumbered_def)
      next
        case (Some tc)
        from some [OF Some] obtain tc' where
          tc': "test_cases st' (current_test_name st') = Some tc'" "tc_index tc' = tc_index tc"
            "tc_negated tc' = tc_negated tc" "tc_text tc' = tc_text tc"
          using eq(6) by auto
        with None Some True eq show ?thesis
          by (simp add: read_line_def markup_def dispatch_def unnumbered_def entries_of_upd)
      qed
    qed
  qed
qed

lemma read_lines_unnumbered:
  assumes "unnumbered st = unnumbered st'"
  shows "map_sum without_line unnumbered (read_lines v st ls)
         = map_sum without_line unnumbered (read_lines v' st' ls)"
  using assms
proof (induction ls arbitrary: st st')
  case Nil
  then show ?case by simp
next
  case (Cons l ls)
  note step = read_line_unnumbered [OF Cons.prems, of v l v']
  show ?case
  proof (cases "read_line v st l")
    case (Inl e)
    with step obtain e' where "read_line v' st' l = Inl e'" "without_line e = without_line e'"
      by (cases "read_line v' st' l") auto
    with Inl show ?thesis by simp
  next
    case (Inr st1)
    with step obtain st1' where s: "read_line v' st' l = Inr st1'" "unnumbered st1 = unnumbered st1'"
      by (cases "read_line v' st' l") auto
    from Cons.IH [OF s(2)] Inr s(1) show ?thesis by simp
  qed
qed

lemma read_lines_append:
  "read_lines v st (xs @ ys)
   = (case read_lines v st xs of Inl e \<Rightarrow> Inl e | Inr st' \<Rightarrow> read_lines v st' ys)"
  by (induction xs arbitrary: st) (simp_all split: sum.splits)

lemma marker_of_NoMarker:
  "marker_of l = NoMarker
   \<longleftrightarrow> test_case l = None \<and> \<not> begin_test_section l \<and> \<not> end_test_section l"
  by (cases "test_case l") (simp_all add: marker_of_def)

lemma marker_of_BeginMarker:
  "marker_of l = BeginMarker \<longleftrightarrow> test_case l = None \<and> begin_test_section l"
  by (cases "test_case l") (simp_all add: marker_of_def)

lemma marker_of_EndMarker:
  "marker_of l = EndMarker
   \<longleftrightarrow> test_case l = None \<and> \<not> begin_test_section l \<and> end_test_section l"
  by (cases "test_case l") (simp_all add: marker_of_def)

lemma marker_of_CaseMarker: "marker_of l = CaseMarker \<longleftrightarrow> test_case l \<noteq> None"
  by (simp add: marker_of_def)

lemma read_line_no_markup:
  assumes "marker_of l = NoMarker" and "\<not> in_test st" and "\<not> in_non_test_matter st"
  shows "read_line v st l = Inr (st\<lparr>line_count := line_count st + 1\<rparr>)"
  using assms
  by (simp add: read_line_def markup_def dispatch_def marker_of_NoMarker)

lemma read_lines_dead:
  assumes "\<forall>l \<in> set dead. marker_of l = NoMarker"
    and "\<not> in_test st" and "\<not> in_non_test_matter st"
  shows "read_lines v st dead = Inr (st\<lparr>line_count := line_count st + length dead\<rparr>)"
  using assms
proof (induction dead arbitrary: st)
  case Nil
  then show ?case by simp
next
  case (Cons l dead)
  from Cons.prems have "read_line v st l = Inr (st\<lparr>line_count := line_count st + 1\<rparr>)"
    by (simp add: read_line_no_markup)
  moreover from Cons.prems have
    "read_lines v (st\<lparr>line_count := line_count st + 1\<rparr>) dead
     = Inr (st\<lparr>line_count := line_count st + 1, line_count := line_count st + 1 + length dead\<rparr>)"
    using Cons.IH [of "st\<lparr>line_count := line_count st + 1\<rparr>"] by simp
  ultimately show ?case by simp
qed

lemma nearest_marker_snoc:
  "nearest_marker (ls @ [l]) = (if marker_of l = NoMarker then nearest_marker ls else marker_of l)"
  by (simp add: nearest_marker_def)

lemma case_open_snoc:
  "case_open (ls @ [l])
   = (if marker_of l = CaseMarker then True
      else if marker_of l = EndMarker then False else case_open ls)"
  by (simp add: case_open_def)

lemma background_lines_snoc:
  "background_lines (ls @ [l])
   = background_lines ls @ (if marker_of l = NoMarker \<and> in_background ls then [l] else [])"
proof -
  have "filter (\<lambda>i. marker_of ((ls @ [l]) ! i) = NoMarker \<and> in_background (take i (ls @ [l])))
          [0..<length ls]
        = filter (\<lambda>i. marker_of (ls ! i) = NoMarker \<and> in_background (take i ls)) [0..<length ls]"
    by (rule filter_cong) (simp_all add: nth_append)
  moreover have "map (\<lambda>i. (ls @ [l]) ! i)
          (filter (\<lambda>i. marker_of (ls ! i) = NoMarker \<and> in_background (take i ls)) [0..<length ls])
        = map (\<lambda>i. ls ! i)
          (filter (\<lambda>i. marker_of (ls ! i) = NoMarker \<and> in_background (take i ls)) [0..<length ls])"
    by (rule map_cong) (simp_all add: nth_append)
  ultimately show ?thesis
    by (simp add: background_lines_def)
qed

lemma read_line_flags:
  assumes "read_line v st l = Inr st'"
  shows "in_test st' = (if marker_of l = CaseMarker then True
                        else if marker_of l = EndMarker then False else in_test st)"
    and "in_non_test_matter st' = (if marker_of l = EndMarker then True
                        else if marker_of l = NoMarker then in_non_test_matter st else False)"
    and "non_test_matter st' = non_test_matter st @
           (if marker_of l = NoMarker \<and> \<not> in_test st \<and> in_non_test_matter st then l else [])"
proof -
  consider (c) "marker_of l = CaseMarker" | (b) "marker_of l = BeginMarker"
    | (e) "marker_of l = EndMarker" | (n) "marker_of l = NoMarker"
    by (cases "marker_of l") auto
  then have "in_test st' = (if marker_of l = CaseMarker then True
                        else if marker_of l = EndMarker then False else in_test st)
    \<and> in_non_test_matter st' = (if marker_of l = EndMarker then True
                        else if marker_of l = NoMarker then in_non_test_matter st else False)
    \<and> non_test_matter st' = non_test_matter st @
           (if marker_of l = NoMarker \<and> \<not> in_test st \<and> in_non_test_matter st then l else [])"
  proof cases
    case c
    then obtain neg trial where t: "test_case l = Some (neg, trial)"
      by (auto simp: marker_of_CaseMarker)
    have "test_cases st (test_name (current_test_count st + 1) trial) = None"
    proof (rule ccontr)
      assume "test_cases st (test_name (current_test_count st + 1) trial) \<noteq> None"
      from read_line_case_duplicate [OF t this, of v] assms show False by simp
    qed
    from read_line_case_new [OF t this, of v] assms c show ?thesis by auto
  next
    case b
    then have t: "test_case l = None" "begin_test_section l"
      by (simp_all add: marker_of_BeginMarker)
    from assms show ?thesis
      by (auto simp: b t read_line_def markup_def dispatch_def)
  next
    case e
    then have t: "test_case l = None" "\<not> begin_test_section l" "end_test_section l"
      by (simp_all add: marker_of_EndMarker)
    from assms show ?thesis
      by (auto simp: e t read_line_def markup_def dispatch_def)
  next
    case n
    then have t: "test_case l = None" "\<not> begin_test_section l" "\<not> end_test_section l"
      by (simp_all add: marker_of_NoMarker)
    from assms show ?thesis
      by (auto simp: n t read_line_def markup_def dispatch_def split: if_splits option.splits)
  qed
  then show "in_test st' = (if marker_of l = CaseMarker then True
                        else if marker_of l = EndMarker then False else in_test st)"
    and "in_non_test_matter st' = (if marker_of l = EndMarker then True
                        else if marker_of l = NoMarker then in_non_test_matter st else False)"
    and "non_test_matter st' = non_test_matter st @
           (if marker_of l = NoMarker \<and> \<not> in_test st \<and> in_non_test_matter st then l else [])"
    by blast+
qed

lemma read_lines_flags:
  assumes "read_lines v initial_state ls = Inr st"
  shows "in_test st = case_open ls
         \<and> (\<not> in_test st \<and> in_non_test_matter st) = in_background ls
         \<and> non_test_matter st = concat (background_lines ls)"
  using assms
proof (induction ls arbitrary: st rule: rev_induct)
  case Nil
  then have "st = initial_state" by simp
  then show ?case
    by (simp add: initial_state_def case_open_def in_background_def nearest_marker_def
        background_lines_def)
next
  case (snoc l ls)
  from snoc.prems obtain st0 where
    r: "read_lines v initial_state ls = Inr st0" and s: "read_line v st0 l = Inr st"
    by (auto simp: read_lines_snoc split: sum.splits)
  note ih = snoc.IH [OF r]
  note f = read_line_flags [OF s]
  from ih f(1) have 1: "in_test st = case_open (ls @ [l])"
    by (simp add: case_open_snoc)
  from ih f(1,2) have 2: "(\<not> in_test st \<and> in_non_test_matter st) = in_background (ls @ [l])"
    by (cases "marker_of l") (auto simp: in_background_def nearest_marker_snoc)
  from ih f(3) have 3: "non_test_matter st = concat (background_lines (ls @ [l]))"
    by (auto simp: background_lines_snoc)
  from 1 2 3 show ?case by blast
qed

lemma content_of_unnumbered:
  assumes "map_sum without_line unnumbered r = map_sum without_line unnumbered r'"
  shows "content_of r = content_of r'"
  using assms by (cases r; cases r') (simp_all add: content_of_def unnumbered_def)

lemma split_content_lines:
  assumes "files input_filename = Some (File content)"
  shows "split_content files input_filename v
         = content_of (read_lines v initial_state (file_lines content))"
  using assms
  by (simp add: split_content_def split_tptp_input_def content_of_def split: sum.splits)

lemma read_line_begin:
  assumes "marker_of b = BeginMarker" and "read_line v st b = Inr st'"
  shows "in_test st' = in_test st" and "\<not> in_non_test_matter st'"
  using read_line_flags [OF assms(2)] assms(1) by simp_all

lemma dead_zone_lines:
  assumes b: "marker_of b = BeginMarker"
    and dead: "list_all (\<lambda>l. marker_of l = NoMarker) dead"
    and closed: "\<not> case_open pre"
  shows "content_of (read_lines v initial_state (pre @ b # dead @ rest))
         = content_of (read_lines v' initial_state (pre @ b # rest))"
proof -
  have split1: "read_lines v initial_state (pre @ b # dead @ rest)
      = (case read_lines v initial_state (pre @ [b]) of
           Inl e \<Rightarrow> Inl e | Inr st' \<Rightarrow> read_lines v st' (dead @ rest))"
    using read_lines_append [of v initial_state "pre @ [b]" "dead @ rest"] by simp
  have split2: "read_lines v' initial_state (pre @ b # rest)
      = (case read_lines v' initial_state (pre @ [b]) of
           Inl e \<Rightarrow> Inl e | Inr st' \<Rightarrow> read_lines v' st' rest)"
    using read_lines_append [of v' initial_state "pre @ [b]" rest] by simp
  note same = read_lines_unnumbered [of initial_state initial_state v "pre @ [b]" v', OF refl]
  show ?thesis
  proof (cases "read_lines v initial_state (pre @ [b])")
    case (Inl e)
    with same obtain e' where e': "read_lines v' initial_state (pre @ [b]) = Inl e'"
      "without_line e = without_line e'"
      by (cases "read_lines v' initial_state (pre @ [b])") auto
    with Inl show ?thesis
      unfolding split1 split2 by (simp add: content_of_def)
  next
    case (Inr st1)
    with same obtain st1' where st1': "read_lines v' initial_state (pre @ [b]) = Inr st1'"
      "unnumbered st1 = unnumbered st1'"
      by (cases "read_lines v' initial_state (pre @ [b])") auto
    from Inr obtain st0 where st0: "read_lines v initial_state pre = Inr st0"
      and step: "read_line v st0 b = Inr st1"
      by (auto simp: read_lines_snoc split: sum.splits)
    from read_lines_flags [OF st0] closed have "\<not> in_test st0" by simp
    with read_line_begin [OF b step] have flags: "\<not> in_test st1" "\<not> in_non_test_matter st1"
      by simp_all
    from dead have "\<forall>l \<in> set dead. marker_of l = NoMarker"
      by (simp add: list_all_iff)
    from read_lines_dead [OF this flags, of v] have
      d: "read_lines v st1 dead = Inr (st1\<lparr>line_count := line_count st1 + length dead\<rparr>)" .
    have "unnumbered (st1\<lparr>line_count := line_count st1 + length dead\<rparr>) = unnumbered st1'"
      using st1'(2) by (simp add: unnumbered_def)
    from read_lines_unnumbered [OF this, of v rest v']
    have "content_of (read_lines v (st1\<lparr>line_count := line_count st1 + length dead\<rparr>) rest)
          = content_of (read_lines v' st1' rest)"
      by (rule content_of_unnumbered)
    with Inr st1'(1) d show ?thesis
      unfolding split1 split2 by (simp add: read_lines_append)
  qed
qed

text \<open>
  C6, as the claim states it, fails on a document with a case marker before the begin
  marker: the line before the begin marker is not in the non-test matter (which is empty),
  and the line between the begin marker and the next case marker is in the body of the
  case \<open>a\<close>.
\<close>

theorem dead_zone_counterexample:
  "split_background [''f'' \<mapsto> File outside_case_document] ''f'' 0 = Some []
   \<and> map_option tc_text (case_entry [''f'' \<mapsto> File outside_case_document] ''f'' 0 ''a'')
       = Some (''% Test case: a'' @ [nl] @ ''fof(x,axiom,(p)).'' @ [nl] @
               ''fof(y,axiom,(q)).'' @ [nl])
   \<and> file_lines outside_case_document
       = [''% Test case: a'' @ [nl], ''fof(x,axiom,(p)).'' @ [nl],
          ''% Test runner: begin tests.'' @ [nl], ''fof(y,axiom,(q)).'' @ [nl],
          ''% Test case: b'' @ [nl], ''fof(z,conjecture,(q)).'' @ [nl],
          ''% Test runner: end tests.'' @ [nl]]
   \<and> marker_of (''% Test runner: begin tests.'' @ [nl]) = BeginMarker
   \<and> marker_of (''% Test case: b'' @ [nl]) = CaseMarker"
  by code_simp

text \<open>
  C6, amended. When no case is open at a begin marker, the lines without markup that follow
  it up to the next marker go nowhere: the document without them has the same non-test
  matter, the same names and the same index, negation and text for each case. And the
  non-test matter of every document is the concatenation, in the order of the document, of
  its lines without markup that no marker precedes or whose nearest preceding marker is
  an end marker.
\<close>

theorem dead_zone_and_background:
  "(files input_filename = Some (File content) \<and> files' input_filename' = Some (File content')
    \<and> file_lines content = pre @ b # dead @ rest \<and> file_lines content' = pre @ b # rest
    \<and> marker_of b = BeginMarker \<and> list_all (\<lambda>l. marker_of l = NoMarker) dead
    \<and> \<not> case_open pre
    \<longrightarrow> split_content files input_filename verbosity
        = split_content files' input_filename' verbosity')
   \<and> (files input_filename = Some (File content)
      \<and> split_background files input_filename verbosity = Some background
      \<longrightarrow> background = concat (background_lines (file_lines content)))"
proof (intro conjI impI)
  assume a: "files input_filename = Some (File content) \<and> files' input_filename' = Some (File content')
    \<and> file_lines content = pre @ b # dead @ rest \<and> file_lines content' = pre @ b # rest
    \<and> marker_of b = BeginMarker \<and> list_all (\<lambda>l. marker_of l = NoMarker) dead
    \<and> \<not> case_open pre"
  then have "content_of (read_lines verbosity initial_state (file_lines content))
             = content_of (read_lines verbosity' initial_state (file_lines content'))"
    using dead_zone_lines [of b dead pre verbosity rest verbosity'] by simp
  with a show "split_content files input_filename verbosity
        = split_content files' input_filename' verbosity'"
    by (simp add: split_content_lines)
next
  assume a: "files input_filename = Some (File content)
      \<and> split_background files input_filename verbosity = Some background"
  then obtain st where "read_lines verbosity initial_state (file_lines content) = Inr st"
    and "background = non_test_matter st"
    by (auto simp: split_background_def split_tptp_input_def split: sum.splits)
  with read_lines_flags [of verbosity "file_lines content" st]
  show "background = concat (background_lines (file_lines content))" by simp
qed

theorem dead_zone_and_background_witness:
  "file_lines example_document
     = [''fof(ax,axiom,(p)).'' @ [nl]] @ (''% Test runner: begin tests.'' @ [nl]) #
       [''ignored'' @ [nl]] @
       [''% Test case: a'' @ [nl], ''fof(c,conjecture,(p)).'' @ [nl],
        ''% Negated test case:'' @ [nl], ''fof(d,conjecture,(q)).'' @ [nl],
        ''% Test runner: end tests.'' @ [nl], ''fof(bx,axiom,(r)).'' @ [nl]]
   \<and> marker_of (''% Test runner: begin tests.'' @ [nl]) = BeginMarker
   \<and> marker_of (''ignored'' @ [nl]) = NoMarker
   \<and> \<not> case_open [''fof(ax,axiom,(p)).'' @ [nl]]
   \<and> split_content [''f'' \<mapsto> File example_document] ''f'' 0
       = split_content [''g'' \<mapsto> File example_document_without_dead_zone] ''g'' 2
   \<and> split_background [''f'' \<mapsto> File example_document] ''f'' 0
       = Some (''fof(ax,axiom,(p)).'' @ [nl] @ ''fof(bx,axiom,(r)).'' @ [nl])
   \<and> ''fof(ax,axiom,(p)).'' @ [nl] @ ''fof(bx,axiom,(r)).'' @ [nl]
       = concat (background_lines (file_lines example_document))"
proof -
  let ?pre = "[''fof(ax,axiom,(p)).'' @ [nl]]"
  let ?b = "''% Test runner: begin tests.'' @ [nl]"
  let ?dead = "[''ignored'' @ [nl]]"
  let ?rest = "[''% Test case: a'' @ [nl], ''fof(c,conjecture,(p)).'' @ [nl],
        ''% Negated test case:'' @ [nl], ''fof(d,conjecture,(q)).'' @ [nl],
        ''% Test runner: end tests.'' @ [nl], ''fof(bx,axiom,(r)).'' @ [nl]]"
  have f: "[''f'' \<mapsto> File example_document] ''f'' = Some (File example_document)"
    and g: "[''g'' \<mapsto> File example_document_without_dead_zone] ''g''
            = Some (File example_document_without_dead_zone)"
    by simp_all
  have l: "file_lines example_document = ?pre @ ?b # ?dead @ ?rest"
    by code_simp
  have l': "file_lines example_document_without_dead_zone = ?pre @ ?b # ?rest"
    by code_simp
  have b: "marker_of ?b = BeginMarker"
    by code_simp
  have d: "list_all (\<lambda>l. marker_of l = NoMarker) ?dead"
    by code_simp
  have d1: "marker_of (''ignored'' @ [nl]) = NoMarker"
    by code_simp
  have c: "\<not> case_open ?pre"
    by code_simp
  have bg: "split_background [''f'' \<mapsto> File example_document] ''f'' 0
       = Some (''fof(ax,axiom,(p)).'' @ [nl] @ ''fof(bx,axiom,(r)).'' @ [nl])"
    by code_simp
  note t = dead_zone_and_background [where files = "[''f'' \<mapsto> File example_document]"
      and input_filename = "''f''" and content = example_document
      and files' = "[''g'' \<mapsto> File example_document_without_dead_zone]"
      and input_filename' = "''g''" and content' = example_document_without_dead_zone
      and pre = ?pre and b = ?b and dead = ?dead and rest = ?rest
      and verbosity = 0 and verbosity' = 2
      and background = "''fof(ax,axiom,(p)).'' @ [nl] @ ''fof(bx,axiom,(r)).'' @ [nl]"]
  from t f g l l' b d c have 1: "split_content [''f'' \<mapsto> File example_document] ''f'' 0
       = split_content [''g'' \<mapsto> File example_document_without_dead_zone] ''g'' 2"
    by blast
  from t f bg have 2: "''fof(ax,axiom,(p)).'' @ [nl] @ ''fof(bx,axiom,(r)).'' @ [nl]
       = concat (background_lines (file_lines example_document))"
    by blast
  from l b d1 c 1 bg 2 show ?thesis by (intro conjI)
qed

end
